theory Spec2Isabelle
  imports Complex_Main "HOL-Library.Char_ord" "HOL-Library.List_Lexorder"
begin

section \<open>The teleop recorder: scripts/teleop_record.py\<close>

text \<open>
  The recorder runs two activities: a keyboard listener whose callbacks \<open>on_press\<close> and
  \<open>on_release\<close> maintain the set \<open>held\<close> and the stop flag, and the capture loop of
  \<open>main\<close>, which reads the stop flag at the top of every tick and copies \<open>held\<close> once per
  tick. The shared variables are read at those two points only, and each callback touches
  one of them, so an execution is fixed by the key events the listener delivers before each
  of the two reads, together with what the screen grab and the clock return. Those
  environment inputs are the \<open>tick_input\<close> records below; the program itself is translated
  function by function.

  A Python string is modelled as a \<open>string\<close>, the bytes of its UTF-8 text: their
  lexicographic order is the order of the code points, which \<open>sorted\<close> uses. Python
  sets are HOL sets, the list \<open>meta["steps"]\<close> is a list of records, paths are their
  strings with the separator \<open>/\<close>. \<open>str.lower\<close>, the string encoder of \<open>json\<close> and
  \<open>float.__repr__\<close> are parameters of the run. Of the library calls only \<open>sct.grab\<close>
  is given a failing outcome, an exception; the conversions of numpy and OpenCV,
  \<open>cv2.imwrite\<close>, \<open>open\<close> and \<open>json.dump\<close> are taken to do what they are asked, and
  pixel data is opaque. Time stamps are reals read from the environment, and
  \<open>time.sleep\<close> has no effect on the state.
\<close>

subsection \<open>Configuration constants\<close>

record region =
  left_px :: int
  top_px :: int
  width_px :: int
  height_px :: int

definition REGION :: region where
  "REGION = \<lparr>left_px = 320, top_px = 212, width_px = 1280, height_px = 720\<rparr>"

definition OUT_W :: nat where "OUT_W = 320"
definition OUT_H :: nat where "OUT_H = 180"

definition HZ :: nat where "HZ = 10"
definition N_STEPS_MAX :: nat where "N_STEPS_MAX = 10000"
definition JPEG_QUALITY :: nat where "JPEG_QUALITY = 90"

text \<open>\<open>KEYMAP\<close>: an ordered list of (channel name, set of aliases).\<close>

definition KEYMAP :: "(string \<times> string set) list" where
  "KEYMAP =
     [(''up'', {''w'', ''up''}),
      (''down'', {''s'', ''down''}),
      (''left'', {''a'', ''left''}),
      (''right'', {''d'', ''right''}),
      (''use_tool'', {''mouse_left'', ''c''}),
      (''interact'', {''x'', ''e'', ''enter''}),
      (''menu'', {''esc'', ''tab''}),
      (''run'', {''left_shift'', ''right_shift''})]"

subsection \<open>Keys and \<open>_key_to_name\<close>\<close>

text \<open>
  A pynput key is either a \<open>KeyCode\<close>, whose attribute \<open>char\<close> is a string or \<open>None\<close>,
  or a member of the enumeration \<open>keyboard.Key\<close>, which has no attribute \<open>char\<close>: reading
  it raises \<open>AttributeError\<close>. \<open>Key_other\<close> stands for the members the recorder does
  not name (function keys, ctrl, alt, ...).
\<close>

datatype special =
  Key_up | Key_down | Key_left | Key_right | Key_esc | Key_enter | Key_tab
  | Key_shift | Key_shift_r | Key_other nat

datatype key = KeyCode "string option" | Key special

datatype error = AttributeError | ScreenShotError

definition char_attr :: "key \<Rightarrow> error + string option" where
  "char_attr k = (case k of KeyCode c \<Rightarrow> Inr c | Key _ \<Rightarrow> Inl AttributeError)"

definition special_name :: "special \<Rightarrow> string option" where
  "special_name k =
     (if k = Key_up then Some ''up''
      else if k = Key_down then Some ''down''
      else if k = Key_left then Some ''left''
      else if k = Key_right then Some ''right''
      else if k = Key_esc then Some ''esc''
      else if k = Key_enter then Some ''enter''
      else if k = Key_tab then Some ''tab''
      else if k = Key_shift then Some ''left_shift''
      else if k = Key_shift_r then Some ''right_shift''
      else None)"

text \<open>
  The \<open>try\<close> block returns the lowered character when there is one; an exception or a
  \<open>char\<close> of \<open>None\<close> falls through to the comparisons with the special keys, all of
  which are false for a \<open>KeyCode\<close>.
\<close>

definition key_to_name :: "(string \<Rightarrow> string) \<Rightarrow> key \<Rightarrow> string option" where
  "key_to_name lw k =
     (case char_attr k of
        Inr (Some c) \<Rightarrow> Some (lw c)
      | _ \<Rightarrow> (case k of Key sp \<Rightarrow> special_name sp | KeyCode _ \<Rightarrow> None))"

subsection \<open>The listener callbacks and the shared state\<close>

record shared =
  held :: "string set"
  stop_flag :: bool
  running :: bool

text \<open>What a callback returns: \<open>None\<close>, or \<open>False\<close>, which stops the listener.\<close>

datatype ret = RetNone | RetFalse

definition on_press :: "(string \<Rightarrow> string) \<Rightarrow> key \<Rightarrow> 'a shared_scheme \<Rightarrow> ret \<times> 'a shared_scheme" where
  "on_press lw k s =
     (case key_to_name lw k of
        None \<Rightarrow> (RetNone, s)
      | Some name \<Rightarrow>
          if name = ''esc'' then (RetFalse, s\<lparr>stop_flag := True\<rparr>)
          else (RetNone, s\<lparr>held := insert name (held s)\<rparr>))"

definition on_release :: "(string \<Rightarrow> string) \<Rightarrow> key \<Rightarrow> 'a shared_scheme \<Rightarrow> ret \<times> 'a shared_scheme" where
  "on_release lw k s =
     (case key_to_name lw k of
        None \<Rightarrow> (RetNone, s)
      | Some name \<Rightarrow> (RetNone, s\<lparr>held := held s - {name}\<rparr>))"

datatype event = Press key | Release key

text \<open>
  The listener thread of pynput: while it runs, it calls the callback of each event, and
  it stops when a callback returns \<open>False\<close>. After that no callback is called.
\<close>

definition dispatch :: "(string \<Rightarrow> string) \<Rightarrow> event \<Rightarrow> 'a shared_scheme \<Rightarrow> 'a shared_scheme" where
  "dispatch lw e s =
     (if running s then
        (case (case e of Press k \<Rightarrow> on_press lw k s | Release k \<Rightarrow> on_release lw k s) of
           (RetFalse, s') \<Rightarrow> s'\<lparr>running := False\<rparr>
         | (RetNone, s') \<Rightarrow> s')
      else s)"

fun deliver :: "(string \<Rightarrow> string) \<Rightarrow> event list \<Rightarrow> 'a shared_scheme \<Rightarrow> 'a shared_scheme" where
  "deliver lw [] s = s"
| "deliver lw (e # es) s = deliver lw es (dispatch lw e s)"

subsection \<open>The action encoding\<close>

text \<open>
  \<^verbatim>\<open>
  action_vec = []
  for _, aliases in KEYMAP:
      action_vec.append(1 if any(a in held_now for a in aliases) else 0)
  \<close>
\<close>

fun encode_loop :: "(string \<times> string set) list \<Rightarrow> string set \<Rightarrow> nat list \<Rightarrow> nat list" where
  "encode_loop [] held_now action_vec = action_vec"
| "encode_loop ((_, aliases) # km) held_now action_vec =
     encode_loop km held_now
       (action_vec @ [if (\<exists>a\<in>aliases. a \<in> held_now) then 1 else 0])"

definition encode :: "string set \<Rightarrow> (string \<times> string set) list \<Rightarrow> nat list" where
  "encode held_now km = encode_loop km held_now []"

subsection \<open>Frame file names\<close>

text \<open>
  \<open>str_nat\<close> is \<open>str\<close> on a non-negative integer; \<open>format_05d t\<close> is the format
  \<open>f"{t:05d}"\<close>: the decimal digits, padded with zeros on the left to at least five
  characters. \<open>path_div\<close> is the operator \<open>/\<close> of \<open>pathlib\<close> on a relative, non-empty
  component, with paths written as their strings; the components the recorder joins are
  literals, frame names and the run id, which \<open>time.strftime("%Y%m%d_%H%M%S")\<close> makes of
  digits and an underscore.
\<close>

definition digit_char :: "nat \<Rightarrow> char" where
  "digit_char d = char_of (48 + d)"

fun str_nat :: "nat \<Rightarrow> string" where
  "str_nat n = (if n < 10 then [digit_char n] else str_nat (n div 10) @ [digit_char (n mod 10)])"

declare str_nat.simps [simp del]

definition format_05d :: "nat \<Rightarrow> string" where
  "format_05d t = replicate (5 - length (str_nat t)) (CHR ''0'') @ str_nat t"

definition path_div :: "string \<Rightarrow> string \<Rightarrow> string" where
  "path_div p q = p @ ''/'' @ q"

definition out_dir :: "string \<Rightarrow> string" where
  "out_dir rid = path_div (path_div ''data'' ''teleop'') rid"

definition frames_dir :: "string \<Rightarrow> string" where
  "frames_dir rid = path_div (out_dir rid) ''frames''"

definition frame_name :: "nat \<Rightarrow> string" where
  "frame_name t = format_05d t @ ''.jpg''"

definition frame_path :: "string \<Rightarrow> nat \<Rightarrow> string" where
  "frame_path rid t = path_div (frames_dir rid) (frame_name t)"

definition frame_ref :: "nat \<Rightarrow> string" where
  "frame_ref t = ''frames/'' @ format_05d t @ ''.jpg''"

text \<open>
  The number a file name denotes: the decimal value of its characters up to the
  extension. It is used to state the numeric order of the frame files.
\<close>

definition digit_val :: "char \<Rightarrow> nat" where
  "digit_val c = of_char c - 48"

definition numeric_value :: "string \<Rightarrow> nat" where
  "numeric_value nm = foldl (\<lambda>a c. 10 * a + digit_val c) 0 (takeWhile (\<lambda>c. c \<noteq> CHR ''.'') nm)"

subsection \<open>The run: state, effects, one tick, the loop, \<open>main\<close>\<close>

type_synonym image = "nat list"

record step_record =
  sr_t :: nat
  sr_time_unix :: real
  sr_held_keys :: "string list"
  sr_action :: "nat list"
  sr_frame :: string

record keymap_entry =
  km_name :: string
  km_aliases :: "string list"

record rollout_metadata =
  m_region :: region
  m_out_size :: "nat list"
  m_hz :: nat
  m_keymap :: "keymap_entry list"
  m_start_time_unix :: real
  m_steps :: "step_record list"

text \<open>
  The file \<open>rollout.json\<close> on disk: absent, or present with the text written to it so
  far. \<open>open(..., "w")\<close> creates it empty; \<open>json.dump\<close> then streams the document into
  it, so that until the file is closed any prefix of the document may be what is on disk.
\<close>

datatype manifest_file = Absent | Written string

text \<open>The effects of \<open>main\<close> on shared variables and on the disk, in program order.\<close>

datatype effect =
    CheckStop nat bool
  | Grab nat bool
  | Snapshot nat "string set"
  | ImWrite string
  | Append nat
  | ListenerStop
  | OpenW string
  | JsonDump

record run_state = shared +
  steps :: "step_record list"
  frame_files :: "(string \<times> image \<times> nat) list"
  manifest :: manifest_file
  raised :: "error option"
  trace :: "effect list"

text \<open>
  What the environment contributes to one tick: the key events delivered before the stop
  flag is read, what \<open>sct.grab\<close> returns (\<open>None\<close>: it raises), the key events delivered
  between the read of the stop flag and the copy of \<open>held\<close>, and the clock. Events
  after the copy are the next tick's \<open>before_check\<close>: nothing reads the shared state in
  between.
\<close>

record tick_input =
  before_check :: "event list"
  grab :: "image option"
  before_snapshot :: "event list"
  clock :: real

text \<open>
  The environment of a run: what \<open>time.strftime\<close> and \<open>time.time\<close> return at the start,
  the inputs of every tick, and three functions of the Python library that the recorder
  calls and that are not part of it: \<open>str.lower\<close>, the string encoder of \<open>json\<close> (the
  quoted, escaped literal of a string) and \<open>float.__repr__\<close>, which \<open>json\<close> uses for
  floats. They are parameters of the run; every statement holds whatever they are, except
  where it names what it asks of them.
\<close>

record environment =
  strftime_now :: string
  time_now :: real
  tick_inputs :: "nat \<Rightarrow> tick_input"
  str_lower :: "string \<Rightarrow> string"
  json_string :: "string \<Rightarrow> string"
  float_repr :: "real \<Rightarrow> string"

datatype tick_result = Continue run_state | Break run_state | Raise error run_state

definition tick :: "(string \<Rightarrow> string) \<Rightarrow> string \<Rightarrow> nat \<Rightarrow> tick_input \<Rightarrow> run_state \<Rightarrow> tick_result" where
  "tick lw rid t inp s =
     (let s1 = deliver lw (before_check inp) s;
          s2 = s1\<lparr>trace := trace s1 @ [CheckStop t (stop_flag s1)]\<rparr>
      in if stop_flag s2 then Break s2
         else
           (case grab inp of
              None \<Rightarrow> Raise ScreenShotError (s2\<lparr>trace := trace s2 @ [Grab t False]\<rparr>)
            | Some obs \<Rightarrow>
                let s3 = deliver lw (before_snapshot inp) (s2\<lparr>trace := trace s2 @ [Grab t True]\<rparr>);
                    held_now = held s3;
                    action_vec = encode held_now KEYMAP;
                    s4 = s3\<lparr>frame_files := frame_files s3 @ [(frame_path rid t, obs, JPEG_QUALITY)],
                            trace := trace s3 @ [Snapshot t held_now, ImWrite (frame_path rid t)]\<rparr>;
                    s5 = s4\<lparr>steps := steps s4 @
                              [\<lparr>sr_t = t, sr_time_unix = clock inp,
                                sr_held_keys = sorted_list_of_set held_now,
                                sr_action = action_vec, sr_frame = frame_ref t\<rparr>],
                            trace := trace s4 @ [Append t]\<rparr>
                in Continue s5))"

text \<open>
  \<^verbatim>\<open>for t in range(N_STEPS_MAX): if stop_flag["stop"]: break ...\<close>
  An exception raised in the body leaves the loop and \<open>main\<close>; nothing catches it.
\<close>

function loop :: "(string \<Rightarrow> string) \<Rightarrow> nat \<Rightarrow> string \<Rightarrow> (nat \<Rightarrow> tick_input) \<Rightarrow> nat \<Rightarrow> run_state \<Rightarrow> run_state" where
  "loop lw n rid inputs t s =
     (if t < n then
        (case tick lw rid t (inputs t) s of
           Break s' \<Rightarrow> s'
         | Raise e s' \<Rightarrow> s'\<lparr>raised := Some e\<rparr>
         | Continue s' \<Rightarrow> loop lw n rid inputs (Suc t) s')
      else s)"
  by pat_completeness auto
termination
  by (relation "measure (\<lambda>(lw, n, rid, inputs, t, s). n - t)") auto

definition initial :: run_state where
  "initial = \<lparr>held = {}, stop_flag = False, running = True, steps = [], frame_files = [],
              manifest = Absent, raised = None, trace = []\<rparr>"

definition meta_of :: "environment \<Rightarrow> step_record list \<Rightarrow> rollout_metadata" where
  "meta_of env sts =
     \<lparr>m_region = REGION, m_out_size = [OUT_W, OUT_H], m_hz = HZ,
      m_keymap = map (\<lambda>(name, aliases). \<lparr>km_name = name, km_aliases = sorted_list_of_set aliases\<rparr>) KEYMAP,
      m_start_time_unix = time_now env, m_steps = sts\<rparr>"

subsection \<open>The manifest document: \<open>json.dump(meta, f, indent=2)\<close>\<close>

text \<open>
  The values \<open>json\<close> meets in \<open>meta\<close>: integers, floats, strings, lists and dictionaries
  (with their keys in insertion order).
\<close>

datatype json = JInt int | JFloat real | JStr string | JList "json list" | JDict "(string \<times> json) list"

definition step_json :: "step_record \<Rightarrow> json" where
  "step_json r =
     JDict [(''t'', JInt (int (sr_t r))),
            (''time_unix'', JFloat (sr_time_unix r)),
            (''held_keys'', JList (map JStr (sr_held_keys r))),
            (''action'', JList (map (\<lambda>b. JInt (int b)) (sr_action r))),
            (''frame'', JStr (sr_frame r))]"

definition keymap_entry_json :: "keymap_entry \<Rightarrow> json" where
  "keymap_entry_json e =
     JDict [(''name'', JStr (km_name e)), (''aliases'', JList (map JStr (km_aliases e)))]"

definition region_json :: "region \<Rightarrow> json" where
  "region_json r =
     JDict [(''left'', JInt (left_px r)), (''top'', JInt (top_px r)),
            (''width'', JInt (width_px r)), (''height'', JInt (height_px r))]"

definition meta_json :: "rollout_metadata \<Rightarrow> json" where
  "meta_json m =
     JDict [(''region'', region_json (m_region m)),
            (''out_size'', JList (map (\<lambda>n. JInt (int n)) (m_out_size m))),
            (''hz'', JInt (int (m_hz m))),
            (''keymap'', JList (map keymap_entry_json (m_keymap m))),
            (''start_time_unix'', JFloat (m_start_time_unix m)),
            (''steps'', JList (map step_json (m_steps m)))]"

text \<open>
  The encoder of \<open>json\<close> with \<open>indent=2\<close>: an empty list is \<open>[]\<close>, an empty dictionary
  \<open>{}\<close>; otherwise the items are put one per line, indented by two spaces per level,
  separated by a comma, a dictionary item being the key's literal, \<open>": "\<close> and the
  value. \<open>es\<close> is the string encoder and \<open>fr\<close> the float formatter.
\<close>

definition str_int :: "int \<Rightarrow> string" where
  "str_int i = (if i < 0 then CHR ''-'' # str_nat (nat (- i)) else str_nat (nat i))"

definition newline_indent :: "nat \<Rightarrow> string" where
  "newline_indent lvl = CHR 0x0A # replicate (2 * lvl) (CHR '' '')"

fun join :: "string \<Rightarrow> string list \<Rightarrow> string" where
  "join sep [] = []"
| "join sep [x] = x"
| "join sep (x # y # ys) = x @ sep @ join sep (y # ys)"

fun iterencode :: "(string \<Rightarrow> string) \<Rightarrow> (real \<Rightarrow> string) \<Rightarrow> nat \<Rightarrow> json \<Rightarrow> string" where
  "iterencode es fr lvl (JInt i) = str_int i"
| "iterencode es fr lvl (JFloat x) = fr x"
| "iterencode es fr lvl (JStr str) = es str"
| "iterencode es fr lvl (JList vs) =
     (if vs = [] then ''[]''
      else ''['' @ newline_indent (Suc lvl) @
           join ('','' @ newline_indent (Suc lvl)) (map (iterencode es fr (Suc lvl)) vs) @
           newline_indent lvl @ '']'')"
| "iterencode es fr lvl (JDict kvs) =
     (if kvs = [] then ''{}''
      else ''{'' @ newline_indent (Suc lvl) @
           join ('','' @ newline_indent (Suc lvl))
             (map (\<lambda>kv. es (fst kv) @ '': '' @ iterencode es fr (Suc lvl) (snd kv)) kvs) @
           newline_indent lvl @ ''}'')"

definition manifest_text :: "environment \<Rightarrow> step_record list \<Rightarrow> string" where
  "manifest_text env sts =
     iterencode (json_string env) (float_repr env) 0 (meta_json (meta_of env sts))"

text \<open>
  What may be on disk while \<open>json.dump\<close> is writing the document and the file is not yet
  closed: a proper prefix of it (the empty file among them).
\<close>

definition dump_states :: "string \<Rightarrow> string list" where
  "dump_states doc = map (\<lambda>n. take n doc) [0..<length doc]"

text \<open>
  What the downstream readers do with the file is \<open>json.loads\<close> on its whole text.
  \<open>json.loads\<close> raises on the empty text, on a text that leaves a string literal open and
  on one whose brackets, outside string literals, are not balanced. \<open>scan\<close> follows a text
  character by character, with the mode (outside a string literal, inside one, after a
  backslash inside one) and the number of open brackets; \<open>may_parse\<close> holds of the texts
  on which \<open>json.loads\<close> does not raise for one of these reasons. It holds of every text
  that \<open>json.loads\<close> parses.
\<close>

datatype mode = Outside | Inside | Escaped

fun scan_step :: "(mode \<times> nat) option \<Rightarrow> char \<Rightarrow> (mode \<times> nat) option" where
  "scan_step None c = None"
| "scan_step (Some (Outside, d)) c =
     (if c = CHR 0x22 then Some (Inside, d)
      else if c = CHR ''{'' \<or> c = CHR ''['' then Some (Outside, Suc d)
      else if c = CHR ''}'' \<or> c = CHR '']'' then (if d = 0 then None else Some (Outside, d - 1))
      else Some (Outside, d))"
| "scan_step (Some (Inside, d)) c =
     (if c = CHR 0x22 then Some (Outside, d)
      else if c = CHR 0x5C then Some (Escaped, d)
      else Some (Inside, d))"
| "scan_step (Some (Escaped, d)) c = Some (Inside, d)"

definition scan :: "string \<Rightarrow> (mode \<times> nat) option" where
  "scan txt = foldl scan_step (Some (Outside, 0)) txt"

definition may_parse :: "string \<Rightarrow> bool" where
  "may_parse txt \<longleftrightarrow> txt \<noteq> [] \<and> scan txt = Some (Outside, 0)"

subsection \<open>The end of \<open>main\<close>\<close>

definition listener_stop :: "run_state \<Rightarrow> run_state" where
  "listener_stop s = s\<lparr>running := False, trace := trace s @ [ListenerStop]\<rparr>"

definition open_manifest :: "string \<Rightarrow> run_state \<Rightarrow> run_state" where
  "open_manifest rid s =
     s\<lparr>manifest := Written [], trace := trace s @ [OpenW (path_div (out_dir rid) ''rollout.json'')]\<rparr>"

definition dump_manifest :: "environment \<Rightarrow> run_state \<Rightarrow> run_state" where
  "dump_manifest env s =
     s\<lparr>manifest := Written (manifest_text env (steps s)), trace := trace s @ [JsonDump]\<rparr>"

definition capture_loop :: "environment \<Rightarrow> run_state" where
  "capture_loop env = loop (str_lower env) N_STEPS_MAX (strftime_now env) (tick_inputs env) 0 initial"

definition main :: "environment \<Rightarrow> run_state" where
  "main env =
     (let s1 = capture_loop env
      in if raised s1 \<noteq> None then s1
         else dump_manifest env (open_manifest (strftime_now env) (listener_stop s1)))"

subsection \<open>Example runs\<close>

text \<open>
  An instance of \<open>str.lower\<close> for the example runs: it lowers the letters \<open>A\<close> to \<open>Z\<close>
  and agrees with \<open>str.lower\<close> on ASCII text. The program is not defined in terms of it,
  and no statement about all runs depends on it.
\<close>

definition ascii_lower_char :: "char \<Rightarrow> char" where
  "ascii_lower_char c =
     (if CHR ''A'' \<le> c \<and> c \<le> CHR ''Z'' then char_of (of_char c + (32::nat)) else c)"

definition ascii_lower :: "string \<Rightarrow> string" where
  "ascii_lower str = map ascii_lower_char str"

text \<open>
  Instances of the string encoder and of the float formatter for the example runs. The
  first quotes a string and puts a backslash before a quote and before a backslash, as
  \<open>json\<close> does on printable ASCII text; the second stands for the formatter on the one
  time stamp of the examples.
\<close>

definition example_escape :: "char \<Rightarrow> string" where
  "example_escape c = (if c = CHR 0x22 \<or> c = CHR 0x5C then [CHR 0x5C, c] else [c])"

definition example_json_string :: "string \<Rightarrow> string" where
  "example_json_string str = CHR 0x22 # concat (map example_escape str) @ [CHR 0x22]"

definition example_float_repr :: "real \<Rightarrow> string" where
  "example_float_repr x = ''0.0''"

definition quiet :: tick_input where
  "quiet = \<lparr>before_check = [], grab = Some [0], before_snapshot = [], clock = 0\<rparr>"

text \<open>
  The operator holds \<open>w\<close> from the first tick on, presses \<open>tab\<close> and then \<open>esc\<close> while the
  second tick is between its stop check and its copy of \<open>held\<close>.
\<close>

definition env_stop :: environment where
  "env_stop =
     \<lparr>strftime_now = ''20260225_142233'', time_now = 0,
      tick_inputs = (\<lambda>t.
        if t = 0 then quiet\<lparr>before_check := [Press (KeyCode (Some ''W''))]\<rparr>
        else if t = 1 then quiet\<lparr>before_snapshot := [Press (Key Key_tab), Press (Key Key_esc)]\<rparr>
        else quiet),
      str_lower = ascii_lower, json_string = example_json_string,
      float_repr = example_float_repr\<rparr>"

text \<open>The first grab returns a frame, the second raises, every later one would work.\<close>

definition env_grab_fails :: environment where
  "env_grab_fails =
     \<lparr>strftime_now = ''20260225_142233'', time_now = 0,
      tick_inputs = (\<lambda>t. if t = 1 then quiet\<lparr>grab := None\<rparr> else quiet),
      str_lower = ascii_lower, json_string = example_json_string,
      float_repr = example_float_repr\<rparr>"

text \<open>A tick during which the stop key is pressed, after the stop flag was read.\<close>

definition esc_mid_tick :: tick_input where
  "esc_mid_tick = quiet\<lparr>before_snapshot := [Press (Key Key_esc)]\<rparr>"

definition env_quiet :: environment where
  "env_quiet = \<lparr>strftime_now = ''20260225_142233'', time_now = 0, tick_inputs = (\<lambda>t. quiet),
      str_lower = ascii_lower, json_string = example_json_string,
      float_repr = example_float_repr\<rparr>"

subsection \<open>Auxiliary notions used in the statements and proofs\<close>

text \<open>
  \<open>fixed_width w n\<close>: the last \<open>w\<close> decimal digits of \<open>n\<close>. \<open>tick_record\<close>: the record a
  tick appends, given the copy of \<open>held\<close>. \<open>block_of\<close>: the effects of the completed
  tick that appended a record. \<open>exit_log\<close>: the effects of the last, uncompleted pass
  through the loop. \<open>run_inv\<close> and \<open>loop_post\<close>: the loop invariant and what holds when
  the loop is left.
\<close>

fun fixed_width :: "nat \<Rightarrow> nat \<Rightarrow> string" where
  "fixed_width 0 n = []"
| "fixed_width (Suc w) n = fixed_width w (n div 10) @ [digit_char (n mod 10)]"

definition tick_record :: "nat \<Rightarrow> real \<Rightarrow> string set \<Rightarrow> step_record" where
  "tick_record t c H = \<lparr>sr_t = t, sr_time_unix = c, sr_held_keys = sorted_list_of_set H,
      sr_action = encode H KEYMAP, sr_frame = frame_ref t\<rparr>"

definition record_ok :: "step_record \<Rightarrow> bool" where
  "record_ok r \<longleftrightarrow>
     sr_frame r = frame_ref (sr_t r) \<and> sorted (sr_held_keys r) \<and> distinct (sr_held_keys r) \<and>
     ''esc'' \<notin> set (sr_held_keys r) \<and> sr_action r = encode (set (sr_held_keys r)) KEYMAP"

definition block_of :: "string \<Rightarrow> step_record \<Rightarrow> effect list" where
  "block_of rid r =
     [CheckStop (sr_t r) False, Grab (sr_t r) True, Snapshot (sr_t r) (set (sr_held_keys r)),
      ImWrite (frame_path rid (sr_t r)), Append (sr_t r)]"

definition exit_log :: "nat \<Rightarrow> run_state \<Rightarrow> effect list" where
  "exit_log n s =
     (if raised s \<noteq> None then [CheckStop (length (steps s)) False, Grab (length (steps s)) False]
      else if length (steps s) < n then [CheckStop (length (steps s)) True]
      else [])"

definition run_inv :: "string \<Rightarrow> run_state \<Rightarrow> bool" where
  "run_inv rid s \<longleftrightarrow>
     finite (held s) \<and> ''esc'' \<notin> held s \<and>
     map sr_t (steps s) = [0..<length (steps s)] \<and>
     list_all record_ok (steps s) \<and>
     map fst (frame_files s) = map (\<lambda>r. frame_path rid (sr_t r)) (steps s) \<and>
     manifest s = Absent"

definition loop_post :: "nat \<Rightarrow> string \<Rightarrow> run_state \<Rightarrow> bool" where
  "loop_post n rid s \<longleftrightarrow>
     run_inv rid s \<and> length (steps s) \<le> n \<and>
     trace s = concat (map (block_of rid) (steps s)) @ exit_log n s \<and>
     (raised s = None \<or> raised s = Some ScreenShotError) \<and>
     (raised s \<noteq> None \<longrightarrow> length (steps s) < n) \<and>
     (raised s = None \<and> length (steps s) < n \<longrightarrow> stop_flag s)"

text \<open>
  For the manifest document: \<open>trail st x\<close> lists the scanner states after each character
  of \<open>x\<close>; \<open>above d\<close> says that all of them are defined, with at least \<open>d\<close> brackets
  open; a text is \<open>neutral\<close> at depth \<open>d\<close> when the scanner, started outside a string at
  that depth, ends there and never falls below it. \<open>library_ok\<close> is what the statement
  on half-written manifests asks of the two library functions: the literal of a string
  and the text of a float are neutral at every depth. It holds of \<open>json\<close>'s encoder, whose
  literal is one quoted string with every inner quote and backslash escaped, and of
  \<open>float.__repr__\<close>, whose text has neither quotes nor brackets.
\<close>

fun trail :: "(mode \<times> nat) option \<Rightarrow> string \<Rightarrow> (mode \<times> nat) option list" where
  "trail st [] = []"
| "trail st (c # cs) = scan_step st c # trail (scan_step st c) cs"

definition above :: "nat \<Rightarrow> (mode \<times> nat) option list \<Rightarrow> bool" where
  "above d sts \<longleftrightarrow> list_all (\<lambda>st. case st of None \<Rightarrow> False | Some (m, d') \<Rightarrow> d \<le> d') sts"

definition neutral :: "nat \<Rightarrow> string \<Rightarrow> bool" where
  "neutral d x \<longleftrightarrow>
     foldl scan_step (Some (Outside, d)) x = Some (Outside, d) \<and>
     above d (trail (Some (Outside, d)) x)"

definition scan_neutral :: "string \<Rightarrow> bool" where
  "scan_neutral x \<longleftrightarrow> (\<forall>d. neutral d x)"

definition plain :: "char \<Rightarrow> bool" where
  "plain c \<longleftrightarrow> c \<noteq> CHR 0x22 \<and> c \<noteq> CHR ''{'' \<and> c \<noteq> CHR ''['' \<and> c \<noteq> CHR ''}'' \<and> c \<noteq> CHR '']''"

definition library_ok :: "environment \<Rightarrow> bool" where
  "library_ok env \<longleftrightarrow>
     (\<forall>str. scan_neutral (json_string env str)) \<and> (\<forall>x. scan_neutral (float_repr env x))"

definition is_container :: "json \<Rightarrow> bool" where
  "is_container v = (case v of JList _ \<Rightarrow> True | JDict _ \<Rightarrow> True | _ \<Rightarrow> False)"

definition is_grab :: "effect \<Rightarrow> bool" where
  "is_grab e = (case e of Grab _ _ \<Rightarrow> True | _ \<Rightarrow> False)"

definition ticks_started :: "effect list \<Rightarrow> nat" where
  "ticks_started l = length (filter is_grab l)"

section \<open>Properties\<close>

lemma encode_loop_eq:
  "encode_loop km H acc = acc @ map (\<lambda>e. if snd e \<inter> H \<noteq> {} then 1 else 0) km"
proof (induction km arbitrary: acc)
  case Nil
  show ?case by simp
next
  case (Cons e km)
  obtain n al where e: "e = (n, al)" by (cases e)
  have "(\<exists>a\<in>al. a \<in> H) \<longleftrightarrow> al \<inter> H \<noteq> {}" by blast
  with Cons show ?case by (simp add: e)
qed

lemma encode_eq: "encode H km = map (\<lambda>e. if snd e \<inter> H \<noteq> {} then 1 else 0) km"
  by (simp add: encode_def encode_loop_eq)

subsection \<open>Decimal formatting\<close>

lemma str_nat_small: "n < 10 \<Longrightarrow> str_nat n = [digit_char n]"
  by (subst str_nat.simps) simp

lemma str_nat_big: "\<not> n < 10 \<Longrightarrow> str_nat n = str_nat (n div 10) @ [digit_char (n mod 10)]"
  by (subst str_nat.simps) simp

lemma digit_char_0: "digit_char 0 = CHR ''0''"
  by code_simp

lemma digit_char_less: "a < 10 \<Longrightarrow> b < 10 \<Longrightarrow> digit_char a < digit_char b \<longleftrightarrow> a < b"
  by (simp add: digit_char_def less_char_def)

lemma digit_char_eq: "a < 10 \<Longrightarrow> b < 10 \<Longrightarrow> digit_char a = digit_char b \<longleftrightarrow> a = b"
proof
  assume a: "a < 10" "b < 10" "digit_char a = digit_char b"
  then have "(of_char (digit_char a) :: nat) = of_char (digit_char b)" by simp
  with a show "a = b" by (simp add: digit_char_def)
qed simp

lemma digit_val_digit_char: "a < 10 \<Longrightarrow> digit_val (digit_char a) = a"
  by (simp add: digit_val_def digit_char_def)

lemma digit_char_not_dot: "a < 10 \<Longrightarrow> digit_char a \<noteq> CHR ''.''"
proof
  assume a: "a < 10" "digit_char a = CHR ''.''"
  then have "(of_char (digit_char a) :: nat) = of_char (CHR ''.'')" by simp
  with a(1) show False by (simp add: digit_char_def)
qed

lemma length_fixed_width: "length (fixed_width w n) = w"
  by (induction w arbitrary: n) simp_all

lemma fixed_width_zero: "fixed_width w 0 = replicate w (CHR ''0'')"
  by (induction w) (simp_all add: digit_char_0 replicate_append_same)

lemma pad_str_nat:
  "n < 10 ^ Suc w \<Longrightarrow>
   replicate (Suc w - length (str_nat n)) (CHR ''0'') @ str_nat n = fixed_width (Suc w) n"
proof (induction w arbitrary: n)
  case 0
  then show ?case by (simp add: str_nat_small)
next
  case (Suc w)
  show ?case
  proof (cases "n < 10")
    case True
    then show ?thesis
      by (simp add: str_nat_small fixed_width_zero replicate_append_same)
  next
    case False
    from Suc.prems have "n div 10 < 10 ^ Suc w" by simp
    from Suc.IH [OF this] False show ?thesis
      by (simp add: str_nat_big)
  qed
qed

lemma format_05d_fixed: "t < 100000 \<Longrightarrow> format_05d t = fixed_width 5 t"
proof -
  assume "t < 100000"
  then have "t < 10 ^ Suc 4" by simp
  then have "replicate (Suc 4 - length (str_nat t)) (CHR ''0'') @ str_nat t = fixed_width (Suc 4) t"
    by (rule pad_str_nat)
  moreover have "Suc 4 = 5" by simp
  ultimately show ?thesis by (simp add: format_05d_def)
qed

lemma lex_snoc:
  fixes xs ys :: "'a::linorder list"
  shows "length xs = length ys \<Longrightarrow> xs @ [a] < ys @ [b] \<longleftrightarrow> xs < ys \<or> (xs = ys \<and> a < b)"
  by (induction xs ys rule: list_induct2) auto

lemma lin_less:
  "b < 10 \<Longrightarrow> d < 10 \<Longrightarrow> (10 * a + b < 10 * c + d) \<longleftrightarrow> a < c \<or> (a = c \<and> b < (d::nat))"
  by linarith

lemma div_mod_less:
  "(s::nat) < t \<longleftrightarrow> s div 10 < t div 10 \<or> (s div 10 = t div 10 \<and> s mod 10 < t mod 10)"
proof -
  have "s < t \<longleftrightarrow> 10 * (s div 10) + s mod 10 < 10 * (t div 10) + t mod 10"
    by simp
  also have "\<dots> \<longleftrightarrow> s div 10 < t div 10 \<or> (s div 10 = t div 10 \<and> s mod 10 < t mod 10)"
    by (rule lin_less) simp_all
  finally show ?thesis .
qed

lemma div_mod_eq:
  "(s::nat) = t \<longleftrightarrow> s div 10 = t div 10 \<and> s mod 10 = t mod 10"
proof
  assume "s div 10 = t div 10 \<and> s mod 10 = t mod 10"
  then have "10 * (s div 10) + s mod 10 = 10 * (t div 10) + t mod 10" by simp
  then show "s = t" by simp
qed simp

lemma fixed_width_order:
  "s < 10 ^ w \<Longrightarrow> t < 10 ^ w \<Longrightarrow>
   (fixed_width w s < fixed_width w t \<longleftrightarrow> s < t) \<and> (fixed_width w s = fixed_width w t \<longleftrightarrow> s = t)"
proof (induction w arbitrary: s t)
  case 0
  then show ?case by simp
next
  case (Suc w)
  from Suc.prems have b: "s div 10 < 10 ^ w" "t div 10 < 10 ^ w" by simp_all
  note IH = Suc.IH [OF b]
  have lt: "s < t \<longleftrightarrow> s div 10 < t div 10 \<or> (s div 10 = t div 10 \<and> s mod 10 < t mod 10)"
    by (rule div_mod_less)
  have eq: "s = t \<longleftrightarrow> s div 10 = t div 10 \<and> s mod 10 = t mod 10"
    by (rule div_mod_eq)
  show ?case
    using IH by (simp add: lex_snoc length_fixed_width digit_char_less digit_char_eq lt eq)
qed

lemma numeric_fixed_width_aux:
  "foldl (\<lambda>a c. 10 * a + digit_val c) 0 (fixed_width w n) = n mod 10 ^ w"
proof (induction w arbitrary: n)
  case 0
  show ?case by simp
next
  case (Suc w)
  have "10 * (n div 10 mod 10 ^ w) + n mod 10 = n mod (10 * 10 ^ w)"
    by (simp add: mod_mult2_eq add.commute)
  then show ?case by (simp add: Suc.IH digit_val_digit_char)
qed

lemma fixed_width_no_dot: "CHR ''.'' \<notin> set (fixed_width w n)"
proof (induction w arbitrary: n)
  case 0
  show ?case by simp
next
  case (Suc w)
  have "digit_char (n mod 10) \<noteq> CHR ''.''" by (rule digit_char_not_dot) simp
  with Suc [of "n div 10"] show ?case by auto
qed

lemma numeric_value_fixed:
  "n < 10 ^ w \<Longrightarrow> numeric_value (fixed_width w n @ ''.jpg'') = n"
proof -
  have "takeWhile (\<lambda>c. c \<noteq> CHR ''.'') (fixed_width w n @ ''.jpg'') = fixed_width w n"
    using fixed_width_no_dot [of w n] by (subst takeWhile_append2) auto
  then show "n < 10 ^ w \<Longrightarrow> numeric_value (fixed_width w n @ ''.jpg'') = n"
    by (simp add: numeric_value_def numeric_fixed_width_aux)
qed

lemma lex_append_same:
  fixes xs ys :: "'a::linorder list"
  shows "p @ xs < p @ ys \<longleftrightarrow> xs < ys"
  by (induction p) auto

lemma lex_append_right:
  fixes xs ys :: "'a::linorder list"
  shows "length xs = length ys \<Longrightarrow> xs @ e < ys @ e \<longleftrightarrow> xs < ys"
  by (induction xs ys rule: list_induct2) auto

subsection \<open>The listener and one tick\<close>

lemma dispatch_log_upd:
  "dispatch lw e (s\<lparr>trace := l\<rparr>) = (dispatch lw e (s::run_state))\<lparr>trace := l\<rparr>"
  by (simp add: dispatch_def on_press_def on_release_def split: event.splits option.splits)

lemma deliver_log_upd:
  "deliver lw evs (s\<lparr>trace := l\<rparr>) = (deliver lw evs (s::run_state))\<lparr>trace := l\<rparr>"
  by (induction evs arbitrary: s) (simp_all add: dispatch_log_upd)

lemma dispatch_rest:
  "steps (dispatch lw e s) = steps s" "frame_files (dispatch lw e s) = frame_files s"
  "manifest (dispatch lw e s) = manifest s" "raised (dispatch lw e s) = raised s"
  "trace (dispatch lw e s) = trace s"
  by (simp_all add: dispatch_def on_press_def on_release_def split: event.splits option.splits)

lemma deliver_rest:
  "steps (deliver lw evs s) = steps s" "frame_files (deliver lw evs s) = frame_files s"
  "manifest (deliver lw evs s) = manifest s" "raised (deliver lw evs s) = raised s"
  "trace (deliver lw evs s) = trace s"
  by (induction evs arbitrary: s) (simp_all add: dispatch_rest)

lemma dispatch_finite: "finite (held s) \<Longrightarrow> finite (held (dispatch lw e s))"
  by (simp add: dispatch_def on_press_def on_release_def split: event.splits option.splits)

lemma deliver_finite: "finite (held s) \<Longrightarrow> finite (held (deliver lw evs s))"
  by (induction evs arbitrary: s) (simp_all add: dispatch_finite)

lemma dispatch_no_esc: "''esc'' \<notin> held s \<Longrightarrow> ''esc'' \<notin> held (dispatch lw e s)"
  by (simp add: dispatch_def on_press_def on_release_def split: event.splits option.splits)

lemma deliver_no_esc: "''esc'' \<notin> held s \<Longrightarrow> ''esc'' \<notin> held (deliver lw evs s)"
  by (induction evs arbitrary: s) (simp_all add: dispatch_no_esc)

lemma tick_Break:
  "stop_flag (deliver lw (before_check inp) s) \<Longrightarrow>
   tick lw rid t inp s = Break ((deliver lw (before_check inp) s)\<lparr>trace := trace s @ [CheckStop t True]\<rparr>)"
  by (simp add: tick_def Let_def deliver_rest)

lemma tick_Raise:
  "\<not> stop_flag (deliver lw (before_check inp) s) \<Longrightarrow> grab inp = None \<Longrightarrow>
   tick lw rid t inp s = Raise ScreenShotError
     ((deliver lw (before_check inp) s)\<lparr>trace := trace s @ [CheckStop t False, Grab t False]\<rparr>)"
  by (simp add: tick_def Let_def deliver_rest)

lemma tick_Continue:
  "\<not> stop_flag (deliver lw (before_check inp) s) \<Longrightarrow> grab inp = Some obs \<Longrightarrow>
   tick lw rid t inp s = Continue
     ((deliver lw (before_snapshot inp) (deliver lw (before_check inp) s))
        \<lparr>steps := steps s @ [tick_record t (clock inp)
              (held (deliver lw (before_snapshot inp) (deliver lw (before_check inp) s)))],
         frame_files := frame_files s @ [(frame_path rid t, obs, JPEG_QUALITY)],
         trace := trace s @ [CheckStop t False, Grab t True,
            Snapshot t (held (deliver lw (before_snapshot inp) (deliver lw (before_check inp) s))),
            ImWrite (frame_path rid t), Append t]\<rparr>)"
  by (simp add: tick_def Let_def deliver_rest deliver_log_upd tick_record_def)

lemma tick_record_ok:
  "finite H \<Longrightarrow> ''esc'' \<notin> H \<Longrightarrow> record_ok (tick_record t c H)"
  by (simp add: record_ok_def tick_record_def)

lemma block_of_tick_record:
  "finite H \<Longrightarrow> block_of rid (tick_record t c H) =
     [CheckStop t False, Grab t True, Snapshot t H, ImWrite (frame_path rid t), Append t]"
  by (simp add: block_of_def tick_record_def)

lemma loop_inv:
  "run_inv rid s \<Longrightarrow> raised s = None \<Longrightarrow> length (steps s) = t \<Longrightarrow> t \<le> n \<Longrightarrow>
   trace s = concat (map (block_of rid) (steps s)) \<Longrightarrow>
   loop_post n rid (loop lw n rid inputs t s)"
proof (induction lw n rid inputs t s rule: loop.induct)
  case (1 lw n rid inputs t s)
  let ?inp = "inputs t"
  let ?s1 = "deliver lw (before_check ?inp) s"
  show ?case
  proof (cases "t < n")
    case False
    with "1.prems" show ?thesis
      by (simp add: loop_post_def exit_log_def)
  next
    case tn: True
    show ?thesis
    proof (cases "stop_flag ?s1")
      case True
      have inv1: "run_inv rid (?s1\<lparr>trace := trace s @ [CheckStop t True]\<rparr>)"
        using "1.prems"(1) by (simp add: run_inv_def deliver_rest deliver_finite deliver_no_esc)
      show ?thesis
        using tn True inv1 "1.prems"
        by (simp add: tick_Break loop_post_def exit_log_def deliver_rest)
    next
      case nostop: False
      show ?thesis
      proof (cases "grab ?inp")
        case None
        have inv1: "run_inv rid (?s1\<lparr>trace := trace s @ [CheckStop t False, Grab t False], raised := Some ScreenShotError\<rparr>)"
          using "1.prems"(1) by (simp add: run_inv_def deliver_rest deliver_finite deliver_no_esc)
        show ?thesis
          using tn nostop None inv1 "1.prems"
          by (simp add: tick_Raise loop_post_def exit_log_def deliver_rest)
      next
        case (Some obs)
        let ?s3 = "deliver lw (before_snapshot ?inp) ?s1"
        let ?H = "held ?s3"
        let ?s5 = "?s3\<lparr>steps := steps s @ [tick_record t (clock ?inp) ?H],
           frame_files := frame_files s @ [(frame_path rid t, obs, JPEG_QUALITY)],
           trace := trace s @ [CheckStop t False, Grab t True, Snapshot t ?H,
              ImWrite (frame_path rid t), Append t]\<rparr>"
        have tk: "tick lw rid t ?inp s = Continue ?s5"
          using nostop Some by (rule tick_Continue)
        have fin: "finite ?H" and ne: "''esc'' \<notin> ?H"
          using "1.prems"(1) by (simp_all add: run_inv_def deliver_finite deliver_no_esc)
        have inv5: "run_inv rid ?s5"
          using "1.prems"(1,3) fin ne
          by (simp add: run_inv_def deliver_rest tick_record_ok) (simp add: tick_record_def)
        have log5: "trace ?s5 = concat (map (block_of rid) (steps ?s5))"
          using "1.prems"(5) fin by (simp add: block_of_tick_record)
        have "loop_post n rid (loop lw n rid inputs (Suc t) ?s5)"
          using tn tk inv5 log5 "1.prems"(2,3)
          by (intro "1.IH") (simp_all add: deliver_rest)
        then show ?thesis
          using tn tk by simp
      qed
    qed
  qed
qed

subsection \<open>The loop, step by step, and the example runs evaluated\<close>

lemma loop_Continue:
  "t < n \<Longrightarrow> tick lw rid t (inputs t) s = Continue s' \<Longrightarrow>
   loop lw n rid inputs t s = loop lw n rid inputs (Suc t) s'"
  by simp

lemma loop_Break:
  "t < n \<Longrightarrow> tick lw rid t (inputs t) s = Break s' \<Longrightarrow> loop lw n rid inputs t s = s'"
  by simp

lemma loop_Raise:
  "t < n \<Longrightarrow> tick lw rid t (inputs t) s = Raise e s' \<Longrightarrow>
   loop lw n rid inputs t s = s'\<lparr>raised := Some e\<rparr>"
  by simp

lemma format_05d_0: "format_05d 0 = ''00000''"
  by code_simp

lemma format_05d_1: "format_05d 1 = ''00001''"
  by code_simp

lemma lower_W: "ascii_lower ''W'' = ''w''"
  by code_simp

lemma sorted_w: "sorted_list_of_set {''w''} = [''w'']"
  by simp

lemma sorted_w_tab: "sorted_list_of_set {''tab'', ''w''} = [''tab'', ''w'']"
  by code_simp

lemma encode_w: "encode {''w''} KEYMAP = [1, 0, 0, 0, 0, 0, 0, 0]"
  by (simp add: encode_def KEYMAP_def)

lemma encode_w_tab: "encode {''tab'', ''w''} KEYMAP = [1, 0, 0, 0, 0, 0, 1, 0]"
  by (simp add: encode_def KEYMAP_def)

lemma encode_empty: "encode {} KEYMAP = [0, 0, 0, 0, 0, 0, 0, 0]"
  by (simp add: encode_def KEYMAP_def)

lemma frame_path_0:
  "frame_path ''20260225_142233'' 0 = ''data/teleop/20260225_142233/frames/00000.jpg''"
  by (simp add: frame_path_def frames_dir_def out_dir_def path_div_def frame_name_def format_05d_0)

lemma frame_path_1:
  "frame_path ''20260225_142233'' (Suc 0) = ''data/teleop/20260225_142233/frames/00001.jpg''"
  using format_05d_1
  by (simp add: frame_path_def frames_dir_def out_dir_def path_div_def frame_name_def)

lemma frame_ref_0: "frame_ref 0 = ''frames/00000.jpg''"
  by (simp add: frame_ref_def format_05d_0)

lemma frame_ref_1: "frame_ref (Suc 0) = ''frames/00001.jpg''"
  using format_05d_1 by (simp add: frame_ref_def)

lemmas eval_simps =
  dispatch_def on_press_def on_release_def key_to_name_def char_attr_def special_name_def
  lower_W sorted_w sorted_w_tab encode_w encode_w_tab encode_empty frame_path_0 frame_path_1
  frame_ref_0 frame_ref_1 tick_record_def JPEG_QUALITY_def quiet_def initial_def


lemma capture_loop_env_stop:
  "capture_loop env_stop =
     \<lparr>held = {''tab'', ''w''}, stop_flag = True, running = False,
      steps = [\<lparr>sr_t = 0, sr_time_unix = 0, sr_held_keys = [''w''],
                sr_action = [1, 0, 0, 0, 0, 0, 0, 0], sr_frame = ''frames/00000.jpg''\<rparr>,
               \<lparr>sr_t = 1, sr_time_unix = 0, sr_held_keys = [''tab'', ''w''],
                sr_action = [1, 0, 0, 0, 0, 0, 1, 0], sr_frame = ''frames/00001.jpg''\<rparr>],
      frame_files = [(''data/teleop/20260225_142233/frames/00000.jpg'', [0], 90),
                     (''data/teleop/20260225_142233/frames/00001.jpg'', [0], 90)],
      manifest = Absent, raised = None,
      trace = [CheckStop 0 False, Grab 0 True, Snapshot 0 {''w''},
             ImWrite ''data/teleop/20260225_142233/frames/00000.jpg'', Append 0,
             CheckStop 1 False, Grab 1 True, Snapshot 1 {''tab'', ''w''},
             ImWrite ''data/teleop/20260225_142233/frames/00001.jpg'', Append 1,
             CheckStop 2 True]\<rparr>"
  (is "_ = ?final")
proof -
  let ?rid = "''20260225_142233''"
  let ?inputs = "tick_inputs env_stop"
  let ?s1 = "\<lparr>held = {''w''}, stop_flag = False, running = True,
      steps = [\<lparr>sr_t = 0, sr_time_unix = 0, sr_held_keys = [''w''],
                sr_action = [1, 0, 0, 0, 0, 0, 0, 0], sr_frame = ''frames/00000.jpg''\<rparr>],
      frame_files = [(''data/teleop/20260225_142233/frames/00000.jpg'', [0], 90)],
      manifest = Absent, raised = None,
      trace = [CheckStop 0 False, Grab 0 True, Snapshot 0 {''w''},
             ImWrite ''data/teleop/20260225_142233/frames/00000.jpg'', Append 0]\<rparr>"
  let ?s2 = "\<lparr>held = {''tab'', ''w''}, stop_flag = True, running = False,
      steps = [\<lparr>sr_t = 0, sr_time_unix = 0, sr_held_keys = [''w''],
                sr_action = [1, 0, 0, 0, 0, 0, 0, 0], sr_frame = ''frames/00000.jpg''\<rparr>,
               \<lparr>sr_t = 1, sr_time_unix = 0, sr_held_keys = [''tab'', ''w''],
                sr_action = [1, 0, 0, 0, 0, 0, 1, 0], sr_frame = ''frames/00001.jpg''\<rparr>],
      frame_files = [(''data/teleop/20260225_142233/frames/00000.jpg'', [0], 90),
                     (''data/teleop/20260225_142233/frames/00001.jpg'', [0], 90)],
      manifest = Absent, raised = None,
      trace = [CheckStop 0 False, Grab 0 True, Snapshot 0 {''w''},
             ImWrite ''data/teleop/20260225_142233/frames/00000.jpg'', Append 0,
             CheckStop 1 False, Grab 1 True, Snapshot 1 {''tab'', ''w''},
             ImWrite ''data/teleop/20260225_142233/frames/00001.jpg'', Append 1]\<rparr>"
  have t0: "tick ascii_lower ?rid 0 (?inputs 0) initial = Continue ?s1"
    by (subst tick_Continue [where obs = "[0]"]) (simp_all add: env_stop_def eval_simps)
  have t1: "tick ascii_lower ?rid (Suc 0) (?inputs (Suc 0)) ?s1 = Continue ?s2"
    by (subst tick_Continue [where obs = "[0]"]) (simp_all add: env_stop_def eval_simps)
  have t2: "tick ascii_lower ?rid (Suc (Suc 0)) (?inputs (Suc (Suc 0))) ?s2 = Break ?final"
    by (subst tick_Break) (simp_all add: env_stop_def eval_simps numeral_2_eq_2)
  have "loop ascii_lower N_STEPS_MAX ?rid ?inputs 0 initial = loop ascii_lower N_STEPS_MAX ?rid ?inputs (Suc 0) ?s1"
    using t0 by (intro loop_Continue) (simp_all add: N_STEPS_MAX_def)
  also have "\<dots> = loop ascii_lower N_STEPS_MAX ?rid ?inputs (Suc (Suc 0)) ?s2"
    using t1 by (intro loop_Continue) (simp_all add: N_STEPS_MAX_def)
  also have "\<dots> = ?final"
    using t2 by (intro loop_Break) (simp_all add: N_STEPS_MAX_def)
  finally show ?thesis
    by (simp add: capture_loop_def env_stop_def)
qed

lemma capture_loop_env_grab_fails:
  "capture_loop env_grab_fails =
     \<lparr>held = {}, stop_flag = False, running = True,
      steps = [\<lparr>sr_t = 0, sr_time_unix = 0, sr_held_keys = [],
                sr_action = [0, 0, 0, 0, 0, 0, 0, 0], sr_frame = ''frames/00000.jpg''\<rparr>],
      frame_files = [(''data/teleop/20260225_142233/frames/00000.jpg'', [0], 90)],
      manifest = Absent, raised = Some ScreenShotError,
      trace = [CheckStop 0 False, Grab 0 True, Snapshot 0 {},
             ImWrite ''data/teleop/20260225_142233/frames/00000.jpg'', Append 0,
             CheckStop 1 False, Grab 1 False]\<rparr>"
  (is "_ = ?final")
proof -
  let ?rid = "''20260225_142233''"
  let ?inputs = "tick_inputs env_grab_fails"
  let ?s1 = "\<lparr>held = {}, stop_flag = False, running = True,
      steps = [\<lparr>sr_t = 0, sr_time_unix = 0, sr_held_keys = [],
                sr_action = [0, 0, 0, 0, 0, 0, 0, 0], sr_frame = ''frames/00000.jpg''\<rparr>],
      frame_files = [(''data/teleop/20260225_142233/frames/00000.jpg'', [0], 90)],
      manifest = Absent, raised = None,
      trace = [CheckStop 0 False, Grab 0 True, Snapshot 0 {},
             ImWrite ''data/teleop/20260225_142233/frames/00000.jpg'', Append 0]\<rparr>"
  have t0: "tick ascii_lower ?rid 0 (?inputs 0) initial = Continue ?s1"
    by (subst tick_Continue [where obs = "[0]"]) (simp_all add: env_grab_fails_def eval_simps)
  have t1: "tick ascii_lower ?rid (Suc 0) (?inputs (Suc 0)) ?s1 = Raise ScreenShotError (?final\<lparr>raised := None\<rparr>)"
    by (subst tick_Raise) (simp_all add: env_grab_fails_def eval_simps)
  have "loop ascii_lower N_STEPS_MAX ?rid ?inputs 0 initial = loop ascii_lower N_STEPS_MAX ?rid ?inputs (Suc 0) ?s1"
    using t0 by (intro loop_Continue) (simp_all add: N_STEPS_MAX_def)
  also have "\<dots> = (?final\<lparr>raised := None\<rparr>)\<lparr>raised := Some ScreenShotError\<rparr>"
    using t1 by (intro loop_Raise) (simp_all add: N_STEPS_MAX_def)
  finally show ?thesis
    by (simp add: capture_loop_def env_grab_fails_def)
qed

lemma main_env_grab_fails: "main env_grab_fails = capture_loop env_grab_fails"
  by (simp add: main_def capture_loop_env_grab_fails)

lemma rollout_path:
  "path_div (out_dir ''20260225_142233'') ''rollout.json'' = ''data/teleop/20260225_142233/rollout.json''"
  by (simp add: out_dir_def path_div_def)

lemma main_env_stop:
  "main env_stop =
     \<lparr>held = {''tab'', ''w''}, stop_flag = True, running = False,
      steps = [\<lparr>sr_t = 0, sr_time_unix = 0, sr_held_keys = [''w''],
                sr_action = [1, 0, 0, 0, 0, 0, 0, 0], sr_frame = ''frames/00000.jpg''\<rparr>,
               \<lparr>sr_t = 1, sr_time_unix = 0, sr_held_keys = [''tab'', ''w''],
                sr_action = [1, 0, 0, 0, 0, 0, 1, 0], sr_frame = ''frames/00001.jpg''\<rparr>],
      frame_files = [(''data/teleop/20260225_142233/frames/00000.jpg'', [0], 90),
                     (''data/teleop/20260225_142233/frames/00001.jpg'', [0], 90)],
      manifest = Written (manifest_text env_stop
         [\<lparr>sr_t = 0, sr_time_unix = 0, sr_held_keys = [''w''],
                sr_action = [1, 0, 0, 0, 0, 0, 0, 0], sr_frame = ''frames/00000.jpg''\<rparr>,
          \<lparr>sr_t = 1, sr_time_unix = 0, sr_held_keys = [''tab'', ''w''],
                sr_action = [1, 0, 0, 0, 0, 0, 1, 0], sr_frame = ''frames/00001.jpg''\<rparr>]),
      raised = None,
      trace = [CheckStop 0 False, Grab 0 True, Snapshot 0 {''w''},
             ImWrite ''data/teleop/20260225_142233/frames/00000.jpg'', Append 0,
             CheckStop 1 False, Grab 1 True, Snapshot 1 {''tab'', ''w''},
             ImWrite ''data/teleop/20260225_142233/frames/00001.jpg'', Append 1,
             CheckStop 2 True, ListenerStop,
             OpenW ''data/teleop/20260225_142233/rollout.json'', JsonDump]\<rparr>"
proof -
  have rid: "strftime_now env_stop = ''20260225_142233''"
    by (simp add: env_stop_def)
  show ?thesis
    by (simp add: main_def capture_loop_env_stop listener_stop_def open_manifest_def
        dump_manifest_def rid rollout_path)
qed

subsection \<open>What holds of every run\<close>

lemma initial_inv: "run_inv rid initial"
  by (simp add: run_inv_def initial_def)

lemma capture_loop_post: "loop_post N_STEPS_MAX (strftime_now env) (capture_loop env)"
  unfolding capture_loop_def
  by (rule loop_inv) (simp_all add: initial_inv, simp_all add: initial_def)

lemma main_finished:
  "raised (capture_loop env) = None \<Longrightarrow>
   main env = dump_manifest env (open_manifest (strftime_now env) (listener_stop (capture_loop env)))"
  by (simp add: main_def)

lemma main_fields:
  "steps (main env) = steps (capture_loop env)"
  "frame_files (main env) = frame_files (capture_loop env)"
  "held (main env) = held (capture_loop env)"
  "stop_flag (main env) = stop_flag (capture_loop env)"
  "raised (main env) = raised (capture_loop env)"
  by (simp_all add: main_def Let_def dump_manifest_def open_manifest_def listener_stop_def)

lemma main_log:
  "trace (main env) = trace (capture_loop env) @
     (if raised (capture_loop env) \<noteq> None then []
      else [ListenerStop, OpenW (path_div (out_dir (strftime_now env)) ''rollout.json''), JsonDump])"
  by (simp add: main_def Let_def dump_manifest_def open_manifest_def listener_stop_def)

lemma main_manifest:
  "manifest (main env) =
     (if raised (capture_loop env) \<noteq> None then Absent
      else Written (manifest_text env (steps (capture_loop env))))"
  using capture_loop_post [of env]
  by (simp add: main_def Let_def dump_manifest_def open_manifest_def listener_stop_def
      loop_post_def run_inv_def)


lemma ticks_started_blocks: "ticks_started (concat (map (block_of rid) sts)) = length sts"
  by (induction sts) (simp_all add: ticks_started_def block_of_def is_grab_def)

lemma ticks_started_append: "ticks_started (xs @ ys) = ticks_started xs + ticks_started ys"
  by (simp add: ticks_started_def)

lemma nth_of_index_list:
  "map f xs = [0..<length xs] \<Longrightarrow> r \<in> set xs \<Longrightarrow> f r < length xs \<and> xs ! f r = r"
proof -
  assume m: "map f xs = [0..<length xs]" and r: "r \<in> set xs"
  from r obtain i where i: "i < length xs" "xs ! i = r"
    by (auto simp: in_set_conv_nth)
  from i(1) have "map f xs ! i = f (xs ! i)" by simp
  with m i(1) have "f (xs ! i) = i" by simp
  with i show ?thesis by simp
qed

lemma loop_post_env:
  "run_inv (strftime_now env) (capture_loop env)"
  "length (steps (capture_loop env)) \<le> N_STEPS_MAX"
  "trace (capture_loop env) =
     concat (map (block_of (strftime_now env)) (steps (capture_loop env))) @
     exit_log N_STEPS_MAX (capture_loop env)"
  "raised (capture_loop env) = None \<or> raised (capture_loop env) = Some ScreenShotError"
  "raised (capture_loop env) \<noteq> None \<Longrightarrow> length (steps (capture_loop env)) < N_STEPS_MAX"
  "raised (capture_loop env) = None \<Longrightarrow> length (steps (capture_loop env)) < N_STEPS_MAX \<Longrightarrow>
     stop_flag (capture_loop env)"
  using capture_loop_post [of env] by (simp_all add: loop_post_def)

lemma records_ok: "r \<in> set (steps (capture_loop env)) \<Longrightarrow> record_ok r"
  using loop_post_env(1) [of env] by (simp add: run_inv_def list_all_iff)

lemma grab_false_in_log:
  "Grab t False \<in> set (trace (main env)) \<Longrightarrow>
   raised (capture_loop env) = Some ScreenShotError \<and> length (steps (capture_loop env)) = t"
proof -
  assume a: "Grab t False \<in> set (trace (main env))"
  have nb: "Grab t False \<notin> set (concat (map (block_of (strftime_now env)) (steps (capture_loop env))))"
    by (simp add: block_of_def)
  from a have "Grab t False \<in> set (trace (capture_loop env))"
    by (simp add: main_log split: if_splits)
  with nb have e: "Grab t False \<in> set (exit_log N_STEPS_MAX (capture_loop env))"
    by (subst (asm) loop_post_env(3)) simp
  then have "raised (capture_loop env) \<noteq> None \<and> length (steps (capture_loop env)) = t"
    by (simp add: exit_log_def split: if_splits)
  with loop_post_env(4) [of env] show ?thesis by simp
qed

lemma check_true_in_log:
  "CheckStop t True \<in> set (trace (main env)) \<Longrightarrow>
   raised (capture_loop env) = None \<and> length (steps (capture_loop env)) = t \<and> t < N_STEPS_MAX"
proof -
  assume a: "CheckStop t True \<in> set (trace (main env))"
  have nb: "CheckStop t True \<notin> set (concat (map (block_of (strftime_now env)) (steps (capture_loop env))))"
    by (simp add: block_of_def)
  from a have "CheckStop t True \<in> set (trace (capture_loop env))"
    by (simp add: main_log split: if_splits)
  with nb have e: "CheckStop t True \<in> set (exit_log N_STEPS_MAX (capture_loop env))"
    by (subst (asm) loop_post_env(3)) simp
  then show ?thesis
    by (simp add: exit_log_def split: if_splits)
qed

lemma frame_files_paths:
  "map fst (frame_files (capture_loop env)) =
   map (frame_path (strftime_now env)) [0..<length (steps (capture_loop env))]"
proof -
  let ?sts = "steps (capture_loop env)"
  let ?rid = "strftime_now env"
  have a: "map fst (frame_files (capture_loop env)) = map (\<lambda>r. frame_path ?rid (sr_t r)) ?sts"
    using loop_post_env(1) [of env] by (simp add: run_inv_def)
  have b: "map sr_t ?sts = [0..<length ?sts]"
    using loop_post_env(1) [of env] by (simp add: run_inv_def)
  have "map (frame_path ?rid) (map sr_t ?sts) = map (frame_path ?rid) [0..<length ?sts]"
    using b by (rule arg_cong)
  then have "map (\<lambda>r. frame_path ?rid (sr_t r)) ?sts = map (frame_path ?rid) [0..<length ?sts]"
    by (simp add: comp_def)
  with a show ?thesis by simp
qed

lemma json_dump_not_in_loop_log:
  "JsonDump \<notin> set (trace (capture_loop env))" "OpenW p \<notin> set (trace (capture_loop env))"
  by (subst loop_post_env(3), simp add: block_of_def exit_log_def)+

lemma ticks_started_main:
  "ticks_started (trace (main env)) =
     length (steps (capture_loop env)) + (if raised (capture_loop env) \<noteq> None then 1 else 0)"
proof -
  let ?X = "concat (map (block_of (strftime_now env)) (steps (capture_loop env)))"
  let ?E = "exit_log N_STEPS_MAX (capture_loop env)"
  have e: "ticks_started ?E = (if raised (capture_loop env) \<noteq> None then 1 else 0)"
    by (simp add: exit_log_def ticks_started_def is_grab_def)
  have m: "ticks_started (trace (main env)) = ticks_started (trace (capture_loop env))"
    by (simp add: main_log ticks_started_def is_grab_def)
  have "trace (capture_loop env) = ?X @ ?E"
    by (rule loop_post_env(3))
  then have "ticks_started (trace (capture_loop env)) = ticks_started (?X @ ?E)"
    by (rule arg_cong)
  also have "\<dots> = length (steps (capture_loop env)) + ticks_started ?E"
    by (simp only: ticks_started_append ticks_started_blocks)
  finally show ?thesis
    using e m by simp
qed

lemma loop_quiet:
  "\<not> stop_flag s \<Longrightarrow> raised s = None \<Longrightarrow>
   \<not> stop_flag (loop lw n rid (\<lambda>t. quiet) t s) \<and> raised (loop lw n rid (\<lambda>t. quiet) t s) = None"
proof (induction lw n rid "\<lambda>t::nat. quiet" t s rule: loop.induct)
  case (1 lw n rid t s)
  show ?case
  proof (cases "t < n")
    case False
    with "1.prems" show ?thesis by simp
  next
    case True
    let ?s' = "s\<lparr>steps := steps s @ [tick_record t 0 (held s)],
         frame_files := frame_files s @ [(frame_path rid t, [0], JPEG_QUALITY)],
         trace := trace s @ [CheckStop t False, Grab t True, Snapshot t (held s),
            ImWrite (frame_path rid t), Append t]\<rparr>"
    have tk: "tick lw rid t quiet s = Continue ?s'"
      using "1.prems"(1) by (subst tick_Continue [where obs = "[0]"]) (simp_all add: quiet_def)
    have "\<not> stop_flag (loop lw n rid (\<lambda>t. quiet) (Suc t) ?s') \<and>
          raised (loop lw n rid (\<lambda>t. quiet) (Suc t) ?s') = None"
      using True tk "1.prems" by (intro "1.hyps") simp_all
    then show ?thesis
      using True tk by simp
  qed
qed

lemma main_env_quiet: "\<not> stop_flag (main env_quiet) \<and> raised (main env_quiet) = None"
proof -
  have "\<not> stop_flag (loop ascii_lower N_STEPS_MAX ''20260225_142233'' (\<lambda>t. quiet) 0 initial) \<and>
        raised (loop ascii_lower N_STEPS_MAX ''20260225_142233'' (\<lambda>t. quiet) 0 initial) = None"
    by (rule loop_quiet) (simp_all add: initial_def)
  then show ?thesis
    by (simp add: main_fields capture_loop_def env_quiet_def del: loop.simps)
qed

subsection \<open>Key names, the stop key, the copies of \<open>held\<close>\<close>

lemma key_to_name_None:
  "key_to_name lw k = None \<longleftrightarrow> k = KeyCode None \<or> (\<exists>n. k = Key (Key_other n))"
proof (cases k)
  case (KeyCode c)
  then show ?thesis by (cases c) (simp_all add: key_to_name_def char_attr_def)
next
  case (Key sp)
  then show ?thesis by (cases sp) (simp_all add: key_to_name_def char_attr_def special_name_def)
qed

lemma unrecognized_ignored:
  "key_to_name lw k = None \<Longrightarrow>
   on_press lw k s = (RetNone, s) \<and> on_release lw k s = (RetNone, s) \<and>
   dispatch lw (Press k) s = s \<and> dispatch lw (Release k) s = s"
  by (simp add: on_press_def on_release_def dispatch_def)

lemma menu_entry: "KEYMAP ! 6 = (''menu'', {''esc'', ''tab''})"
  by (simp add: KEYMAP_def)

lemma menu_bit:
  "''esc'' \<notin> H \<Longrightarrow> encode H KEYMAP ! 6 = 1 \<longleftrightarrow> ''tab'' \<in> H"
  by (simp add: encode_eq KEYMAP_def)

lemma esc_press:
  "key_to_name lw k = Some ''esc'' \<Longrightarrow>
   on_press lw k s = (RetFalse, s\<lparr>stop_flag := True\<rparr>) \<and> held (snd (on_press lw k s)) = held s"
  by (simp add: on_press_def)

lemma esc_release:
  "key_to_name lw k = Some ''esc'' \<Longrightarrow> ''esc'' \<notin> held s \<Longrightarrow> on_release lw k s = (RetNone, s)"
  by (simp add: on_release_def)

lemma snapshot_in_blocks:
  "Snapshot t H \<in> set (concat (map (block_of rid) sts)) \<longleftrightarrow>
   (\<exists>r\<in>set sts. sr_t r = t \<and> H = set (sr_held_keys r))"
  by (auto simp: block_of_def)

lemma snapshot_in_log:
  "Snapshot t H \<in> set (trace (main env)) \<longleftrightarrow>
   (\<exists>r\<in>set (steps (capture_loop env)). sr_t r = t \<and> H = set (sr_held_keys r))"
proof -
  have "Snapshot t H \<in> set (trace (main env)) \<longleftrightarrow> Snapshot t H \<in> set (trace (capture_loop env))"
    by (simp add: main_log)
  also have "\<dots> \<longleftrightarrow> Snapshot t H \<in>
      set (concat (map (block_of (strftime_now env)) (steps (capture_loop env))))"
    by (subst loop_post_env(3)) (simp add: exit_log_def)
  finally show ?thesis
    by (simp only: snapshot_in_blocks)
qed

subsection \<open>Frame names below the step cap\<close>

lemma frame_name_fixed: "t < N_STEPS_MAX \<Longrightarrow> frame_name t = fixed_width 5 t @ ''.jpg''"
  by (simp add: frame_name_def format_05d_fixed N_STEPS_MAX_def)

lemma frame_name_less:
  "s < t \<Longrightarrow> t < N_STEPS_MAX \<Longrightarrow> frame_name s < frame_name t"
proof -
  assume a: "s < t" "t < N_STEPS_MAX"
  then have b: "s < 10 ^ 5" "t < 10 ^ 5"
    by (simp_all add: N_STEPS_MAX_def)
  from fixed_width_order [OF b] a(1) have "fixed_width 5 s < fixed_width 5 t"
    by simp
  then have "fixed_width 5 s @ ''.jpg'' < fixed_width 5 t @ ''.jpg''"
    by (subst lex_append_right) (simp_all add: length_fixed_width)
  with a show ?thesis
    by (simp add: frame_name_fixed)
qed

lemma frame_name_value: "t < N_STEPS_MAX \<Longrightarrow> numeric_value (frame_name t) = t"
proof -
  assume a: "t < N_STEPS_MAX"
  then have "t < 10 ^ 5" by (simp add: N_STEPS_MAX_def)
  then have "numeric_value (fixed_width 5 t @ ''.jpg'') = t"
    by (rule numeric_value_fixed)
  with a show ?thesis by (simp add: frame_name_fixed)
qed

lemma frame_path_ref: "frame_path rid t = path_div (out_dir rid) (frame_ref t)"
  by (simp add: frame_path_def frames_dir_def path_div_def frame_ref_def frame_name_def)

lemma frame_path_less: "frame_name s < frame_name t \<Longrightarrow> frame_path rid s < frame_path rid t"
  by (simp add: frame_path_def path_div_def lex_append_same)

subsection \<open>The manifest document and its prefixes\<close>

lemma trail_append: "trail st (x @ y) = trail st x @ trail (foldl scan_step st x) y"
  by (induction x arbitrary: st) simp_all

lemma length_trail: "length (trail st x) = length x"
  by (induction x arbitrary: st) simp_all

lemma trail_nth: "n < length x \<Longrightarrow> trail st x ! n = foldl scan_step st (take (Suc n) x)"
proof (induction x arbitrary: st n)
  case Nil
  then show ?case by simp
next
  case (Cons c cs)
  then show ?case by (cases n) simp_all
qed

lemma above_append: "above d (xs @ ys) \<longleftrightarrow> above d xs \<and> above d ys"
  by (simp add: above_def)

lemma above_mono: "above (Suc d) sts \<Longrightarrow> above d sts"
  by (auto simp: above_def list_all_iff split: option.splits)

lemma neutral_Nil: "neutral d []"
  by (simp add: neutral_def above_def)

lemma neutral_append: "neutral d x \<Longrightarrow> neutral d y \<Longrightarrow> neutral d (x @ y)"
  by (simp add: neutral_def trail_append above_append)

lemma neutral_plain_char: "plain c \<Longrightarrow> neutral d [c]"
  by (simp add: neutral_def plain_def above_def)

lemma neutral_plain: "\<forall>c\<in>set x. plain c \<Longrightarrow> neutral d x"
proof (induction x)
  case Nil
  show ?case by (rule neutral_Nil)
next
  case (Cons c cs)
  then have "neutral d [c]" "neutral d cs" by (simp_all add: neutral_plain_char)
  then have "neutral d ([c] @ cs)" by (rule neutral_append)
  then show ?case by simp
qed

lemma neutral_join:
  "neutral d sep \<Longrightarrow> \<forall>x\<in>set xs. neutral d x \<Longrightarrow> neutral d (join sep xs)"
proof (induction sep xs rule: join.induct)
  case (1 sep)
  show ?case by (simp add: neutral_Nil)
next
  case (2 sep x)
  then show ?case by simp
next
  case (3 sep x y ys)
  then have "neutral d (join sep (y # ys))" by simp
  with 3 show ?case by (simp add: neutral_append)
qed

lemma plain_digit_char: "k < 10 \<Longrightarrow> plain (digit_char k)"
proof -
  assume k: "k < 10"
  have "(of_char (digit_char k) :: nat) = 48 + k"
    using k by (simp add: digit_char_def)
  then have "(of_char (digit_char k) :: nat) < 58 \<and> 48 \<le> (of_char (digit_char k) :: nat)"
    using k by simp
  then show ?thesis
    by (auto simp: plain_def)
qed

lemma plain_str_nat: "\<forall>c\<in>set (str_nat n). plain c"
proof (induction n rule: str_nat.induct)
  case (1 n)
  show ?case
  proof (cases "n < 10")
    case True
    then show ?thesis by (simp add: str_nat_small plain_digit_char)
  next
    case False
    with 1 show ?thesis by (simp add: str_nat_big plain_digit_char)
  qed
qed

lemma plain_str_int: "\<forall>c\<in>set (str_int i). plain c"
  using plain_str_nat by (simp add: str_int_def plain_def)

lemma plain_newline_indent: "\<forall>c\<in>set (newline_indent lvl). plain c"
  by (simp add: newline_indent_def plain_def)

lemma neutral_sep: "neutral d ('','' @ newline_indent lvl)"
  using plain_newline_indent [of lvl] by (intro neutral_plain) (simp add: plain_def)

lemma neutral_newline_indent: "neutral d (newline_indent lvl)"
  using plain_newline_indent [of lvl] by (intro neutral_plain)

lemma wrap_open:
  "c = CHR ''{'' \<or> c = CHR ''['' \<Longrightarrow> e = CHR ''}'' \<or> e = CHR '']'' \<Longrightarrow> neutral (Suc d) body \<Longrightarrow>
   foldl scan_step (Some (Outside, d)) (c # body @ [e]) = Some (Outside, d) \<and>
   trail (Some (Outside, d)) (c # body @ [e]) =
     Some (Outside, Suc d) # trail (Some (Outside, Suc d)) body @ [Some (Outside, d)] \<and>
   above (Suc d) (butlast (trail (Some (Outside, d)) (c # body @ [e])))"
  by (auto simp: neutral_def trail_append above_def)

lemma neutral_wrap:
  "c = CHR ''{'' \<or> c = CHR ''['' \<Longrightarrow> e = CHR ''}'' \<or> e = CHR '']'' \<Longrightarrow> neutral (Suc d) body \<Longrightarrow>
   neutral d (c # body @ [e])"
proof -
  assume a: "c = CHR ''{'' \<or> c = CHR ''[''" "e = CHR ''}'' \<or> e = CHR '']''" "neutral (Suc d) body"
  from wrap_open [OF a]
  have f: "foldl scan_step (Some (Outside, d)) (c # body @ [e]) = Some (Outside, d)"
    and t: "trail (Some (Outside, d)) (c # body @ [e]) =
      Some (Outside, Suc d) # trail (Some (Outside, Suc d)) body @ [Some (Outside, d)]"
    by blast+
  from a(3) have "above (Suc d) (trail (Some (Outside, Suc d)) body)"
    by (simp add: neutral_def)
  then have b: "above d (trail (Some (Outside, Suc d)) body)"
    by (rule above_mono)
  have "above d (Some (Outside, Suc d) # trail (Some (Outside, Suc d)) body @ [Some (Outside, d)])"
    using b by (simp add: above_def)
  with f t show ?thesis
    by (simp only: neutral_def)
qed

lemma neutral_brackets: "neutral d ''[]''" "neutral d ''{}''"
  using neutral_wrap [of "CHR ''[''" "CHR '']''" d "[]"] neutral_wrap [of "CHR ''{''" "CHR ''}''" d "[]"]
  by (simp_all add: neutral_Nil)

lemma neutral_colon: "neutral d '': ''"
  by (intro neutral_plain) (simp add: plain_def)

lemma container_text:
  assumes es: "\<forall>str. scan_neutral (es str)" and fr: "\<forall>x. scan_neutral (fr x)"
  shows "neutral d (iterencode es fr lvl v) \<and>
    (is_container v \<longrightarrow>
       (\<exists>c e body. iterencode es fr lvl v = c # body @ [e] \<and>
          (c = CHR ''{'' \<or> c = CHR ''['') \<and> (e = CHR ''}'' \<or> e = CHR '']'') \<and>
          neutral (Suc d) body))"
proof (induction v arbitrary: d lvl)
  case (JInt i)
  show ?case
    using plain_str_int [of i] by (simp add: is_container_def neutral_plain)
next
  case (JFloat x)
  show ?case
    using fr by (simp add: is_container_def scan_neutral_def)
next
  case (JStr str)
  show ?case
    using es by (simp add: is_container_def scan_neutral_def)
next
  case (JList vs)
  let ?items = "map (iterencode es fr (Suc lvl)) vs"
  let ?body = "newline_indent (Suc lvl) @ join ('','' @ newline_indent (Suc lvl)) ?items @ newline_indent lvl"
  show ?case
  proof (cases "vs = []")
    case True
    have "neutral (Suc d) []" by (rule neutral_Nil)
    moreover have "iterencode es fr lvl (JList vs) = CHR ''['' # [] @ [CHR '']'']"
      using True by simp
    ultimately show ?thesis
      using neutral_brackets(1) [of d] True by (simp add: is_container_def)
  next
    case False
    have it: "\<forall>x\<in>set ?items. neutral (Suc d) x"
      using JList.IH by auto
    have b: "neutral (Suc d) ?body"
      by (intro neutral_append neutral_newline_indent neutral_join neutral_sep it)
    have t: "iterencode es fr lvl (JList vs) = CHR ''['' # ?body @ [CHR '']'']"
      using False by simp
    have "neutral d (CHR ''['' # ?body @ [CHR '']''])"
      using b by (intro neutral_wrap) simp_all
    with t b show ?thesis
      by (simp only: is_container_def) auto
  qed
next
  case (JDict kvs)
  let ?items = "map (\<lambda>kv. es (fst kv) @ '': '' @ iterencode es fr (Suc lvl) (snd kv)) kvs"
  let ?body = "newline_indent (Suc lvl) @ join ('','' @ newline_indent (Suc lvl)) ?items @ newline_indent lvl"
  show ?case
  proof (cases "kvs = []")
    case True
    have "neutral (Suc d) []" by (rule neutral_Nil)
    moreover have "iterencode es fr lvl (JDict kvs) = CHR ''{'' # [] @ [CHR ''}'']"
      using True by simp
    ultimately show ?thesis
      using neutral_brackets(2) [of d] True by (simp add: is_container_def)
  next
    case False
    have it: "\<forall>x\<in>set ?items. neutral (Suc d) x"
    proof
      fix x assume "x \<in> set ?items"
      then obtain kv where kv: "kv \<in> set kvs"
        and x: "x = es (fst kv) @ '': '' @ iterencode es fr (Suc lvl) (snd kv)"
        by auto
      have "snd kv \<in> Basic_BNFs.snds kv"
        by (cases kv) simp
      from JDict.IH [OF kv this] have "neutral (Suc d) (iterencode es fr (Suc lvl) (snd kv))"
        by blast
      moreover have "neutral (Suc d) (es (fst kv))"
        using es by (simp add: scan_neutral_def)
      ultimately show "neutral (Suc d) x"
        unfolding x by (intro neutral_append neutral_colon)
    qed
    have b: "neutral (Suc d) ?body"
      by (intro neutral_append neutral_newline_indent neutral_join neutral_sep it)
    have t: "iterencode es fr lvl (JDict kvs) = CHR ''{'' # ?body @ [CHR ''}'']"
      using False by simp
    have "neutral d (CHR ''{'' # ?body @ [CHR ''}''])"
      using b by (intro neutral_wrap) simp_all
    with t b show ?thesis
      by (simp only: is_container_def) auto
  qed
qed

lemma container_may_parse:
  assumes es: "\<forall>str. scan_neutral (es str)" and fr: "\<forall>x. scan_neutral (fr x)"
    and c: "is_container v"
  shows "may_parse (iterencode es fr 0 v)"
proof -
  from container_text [OF es fr, of 0 0 v] c
  have n: "neutral 0 (iterencode es fr 0 v)" and ne: "iterencode es fr 0 v \<noteq> []"
    by auto
  then show ?thesis
    by (simp add: may_parse_def scan_def neutral_def)
qed

lemma proper_prefix_no_parse:
  assumes es: "\<forall>str. scan_neutral (es str)" and fr: "\<forall>x. scan_neutral (fr x)"
    and c: "is_container v" and p: "txt \<in> set (dump_states (iterencode es fr 0 v))"
  shows "\<not> may_parse txt"
proof -
  let ?doc = "iterencode es fr 0 v"
  from p obtain n where n: "n < length ?doc" and tx: "txt = take n ?doc"
    by (auto simp: dump_states_def)
  from container_text [OF es fr, of 0 0 v] c
  obtain c0 e0 body where form: "?doc = c0 # body @ [e0]"
    and br: "c0 = CHR ''{'' \<or> c0 = CHR ''[''" "e0 = CHR ''}'' \<or> e0 = CHR '']''"
    and nb: "neutral (Suc 0) body"
    by auto
  have ab: "above (Suc 0) (butlast (trail (Some (Outside, 0)) ?doc))"
    using wrap_open [OF br nb] unfolding form by blast
  show ?thesis
  proof (cases n)
    case 0
    with tx show ?thesis by (simp add: may_parse_def)
  next
    case (Suc k)
    with n have k: "k < length ?doc - 1" by simp
    then have k': "k < length ?doc" by simp
    have "scan txt = trail (Some (Outside, 0)) ?doc ! k"
      using k' by (simp add: scan_def tx Suc trail_nth)
    also have "\<dots> = butlast (trail (Some (Outside, 0)) ?doc) ! k"
      using k by (simp add: nth_butlast length_trail)
    finally have "scan txt \<in> set (butlast (trail (Some (Outside, 0)) ?doc))"
      using k by (simp add: length_trail)
    with ab have "case scan txt of None \<Rightarrow> False | Some (m, d') \<Rightarrow> Suc 0 \<le> d'"
      by (simp add: above_def list_all_iff)
    then have "scan txt \<noteq> Some (Outside, 0)"
      by auto
    then show ?thesis by (simp add: may_parse_def)
  qed
qed

lemma example_body:
  "foldl scan_step (Some (Inside, d)) (concat (map example_escape str)) = Some (Inside, d) \<and>
   above d (trail (Some (Inside, d)) (concat (map example_escape str)))"
proof (induction str)
  case Nil
  show ?case by (simp add: above_def)
next
  case (Cons c cs)
  have "foldl scan_step (Some (Inside, d)) (example_escape c) = Some (Inside, d) \<and>
     above d (trail (Some (Inside, d)) (example_escape c))"
    by (simp add: example_escape_def above_def)
  with Cons show ?case
    by (simp add: trail_append above_append)
qed

lemma example_json_string_neutral: "scan_neutral (example_json_string str)"
  using example_body [of _ str]
  by (simp add: scan_neutral_def neutral_def example_json_string_def trail_append above_append)
     (simp add: above_def)

lemma example_float_repr_neutral: "scan_neutral (example_float_repr x)"
  by (simp add: scan_neutral_def example_float_repr_def neutral_plain plain_def)

lemma library_ok_examples: "library_ok env_stop" "library_ok env_grab_fails" "library_ok env_quiet"
  by (simp_all add: library_ok_def env_stop_def env_grab_fails_def env_quiet_def
      example_json_string_neutral example_float_repr_neutral)

lemma meta_json_container: "is_container (meta_json m)"
  by (simp add: meta_json_def is_container_def)

section \<open>The claims\<close>

text \<open>
  C1. For every snapshot \<open>H\<close> of the held keys and every keymap \<open>K\<close>, the action vector has
  the length of \<open>K\<close>, and at every index \<open>i\<close> it is 1 exactly when \<open>H\<close> meets the aliases
  of the \<open>i\<close>-th entry, and 0 otherwise.
\<close>

theorem encode_correct:
  "length (encode H K) = length K \<and>
   (\<forall>i<length K.
      (encode H K ! i = 1 \<longleftrightarrow> H \<inter> snd (K ! i) \<noteq> {}) \<and>
      (encode H K ! i = 0 \<longleftrightarrow> H \<inter> snd (K ! i) = {}))"
  by (auto simp: encode_eq)

theorem encode_correct_witness:
  "length (encode {''w'', ''left_shift''} [(''up'', {''w'', ''up''}), (''run'', {''left_shift''}), (''menu'', {''esc'', ''tab''})]) = 3 \<and>
   encode {''w'', ''left_shift''} [(''up'', {''w'', ''up''}), (''run'', {''left_shift''}), (''menu'', {''esc'', ''tab''})] ! 0 = 1 \<and>
   encode {''w'', ''left_shift''} [(''up'', {''w'', ''up''}), (''run'', {''left_shift''}), (''menu'', {''esc'', ''tab''})] ! 2 = 0 \<and>
   {''w'', ''left_shift''} \<inter> snd ([(''up'', {''w'', ''up''}), (''run'', {''left_shift''}), (''menu'', {''esc'', ''tab''})] ! 0) \<noteq> {}"
  using encode_correct [of "{''w'', ''left_shift''}"
      "[(''up'', {''w'', ''up''}), (''run'', {''left_shift''}), (''menu'', {''esc'', ''tab''})]"]
  by (simp add: encode_def)

text \<open>
  C2, as stated, fails. In the run \<open>env_grab_fails\<close> the grab of tick 1 raises. Nothing in
  \<open>main\<close> catches the exception, so the run ends there: tick 2, whose grab would return
  a frame, never starts, although no stop key was pressed and the step cap is far away.
\<close>

theorem grab_failure_aborts_run:
  "grab (tick_inputs env_grab_fails 1) = None \<and>
   grab (tick_inputs env_grab_fails 2) = Some [0] \<and>
   raised (main env_grab_fails) = Some ScreenShotError \<and>
   trace (main env_grab_fails) =
     [CheckStop 0 False, Grab 0 True, Snapshot 0 {},
      ImWrite ''data/teleop/20260225_142233/frames/00000.jpg'', Append 0,
      CheckStop 1 False, Grab 1 False]"
  by (simp add: main_env_grab_fails capture_loop_env_grab_fails)
     (simp add: env_grab_fails_def quiet_def)

text \<open>
  C2, amended. In a tick whose frame grab fails, no frame file is written and no
  StepRecord is appended: the files and records are those of the ticks before it. The
  exception is not caught; the failing grab is the last effect of the run, and no
  manifest is written.
\<close>

theorem grab_failure_ends_run:
  "Grab t False \<in> set (trace (main env)) \<Longrightarrow>
     raised (main env) = Some ScreenShotError \<and>
     map sr_t (steps (main env)) = [0..<t] \<and>
     map fst (frame_files (main env)) = map (frame_path (strftime_now env)) [0..<t] \<and>
     manifest (main env) = Absent \<and>
     trace (main env) =
       concat (map (block_of (strftime_now env)) (steps (main env))) @ [CheckStop t False, Grab t False]"
proof -
  assume a: "Grab t False \<in> set (trace (main env))"
  from grab_false_in_log [OF a]
  have r: "raised (capture_loop env) = Some ScreenShotError"
    and l: "length (steps (capture_loop env)) = t" by simp_all
  have "map sr_t (steps (capture_loop env)) = [0..<t]"
    using loop_post_env(1) [of env] l by (simp add: run_inv_def)
  moreover have "map fst (frame_files (capture_loop env)) = map (frame_path (strftime_now env)) [0..<t]"
    using frame_files_paths [of env] l by simp
  moreover have "trace (capture_loop env) =
      concat (map (block_of (strftime_now env)) (steps (capture_loop env))) @ [CheckStop t False, Grab t False]"
    using r l by (subst loop_post_env(3)) (simp add: exit_log_def)
  ultimately show ?thesis
    using r by (simp add: main_fields main_log main_manifest)
qed

theorem grab_failure_ends_run_witness:
  "Grab 1 False \<in> set (trace (main env_grab_fails)) \<and>
   raised (main env_grab_fails) = Some ScreenShotError \<and>
   map sr_t (steps (main env_grab_fails)) = [0] \<and>
   map fst (frame_files (main env_grab_fails)) = [''data/teleop/20260225_142233/frames/00000.jpg''] \<and>
   manifest (main env_grab_fails) = Absent"
proof -
  have h: "Grab 1 False \<in> set (trace (main env_grab_fails))"
    by (simp add: main_env_grab_fails capture_loop_env_grab_fails)
  from grab_failure_ends_run [OF h] h show ?thesis
    by (simp add: main_env_grab_fails capture_loop_env_grab_fails)
qed

text \<open>
  C3, as stated, fails. In the run \<open>env_grab_fails\<close> a record was appended and a frame
  file written, yet the manifest is never written: the exception leaves \<open>main\<close> before
  the write, so the manifest is not written once per run.
\<close>

theorem manifest_not_written_when_aborted:
  "raised (main env_grab_fails) = Some ScreenShotError \<and>
   length (steps (main env_grab_fails)) = 1 \<and>
   length (frame_files (main env_grab_fails)) = 1 \<and>
   manifest (main env_grab_fails) = Absent \<and>
   count_list (trace (main env_grab_fails)) JsonDump = 0"
  by (simp add: main_env_grab_fails capture_loop_env_grab_fails)

text \<open>
  C3, amended. In every run whose loop is left without an exception, \<open>rollout.json\<close> is
  written exactly once, as the last effect of the run, after the loop and after every frame
  file; the document is the \<open>json\<close> text of the metadata, whose \<open>steps\<close> entry holds every
  appended StepRecord, in order. The file is written as one document: while it is being
  written, what is on disk is a proper prefix of the document, and no such prefix is a
  text that \<open>json.loads\<close> parses (the complete document passes the same test), so no
  reader can take a half-written manifest for a shorter run. In a run that an exception
  ends, no manifest is written.
\<close>

theorem manifest_written_after_loop:
  "(raised (capture_loop env) = None \<longrightarrow>
      main env = dump_manifest env
        (open_manifest (strftime_now env) (listener_stop (capture_loop env))) \<and>
      trace (main env) = trace (capture_loop env) @
        [ListenerStop, OpenW (path_div (out_dir (strftime_now env)) ''rollout.json''), JsonDump] \<and>
      JsonDump \<notin> set (trace (capture_loop env)) \<and>
      count_list (trace (main env)) JsonDump = 1 \<and>
      manifest (capture_loop env) = Absent \<and>
      manifest (main env) = Written (manifest_text env (steps (main env))) \<and>
      manifest_text env (steps (main env)) =
        iterencode (json_string env) (float_repr env) 0 (meta_json (meta_of env (steps (main env)))) \<and>
      (\<exists>items. meta_json (meta_of env (steps (main env))) = JDict items \<and>
         (''steps'', JList (map step_json (steps (main env)))) \<in> set items) \<and>
      (library_ok env \<longrightarrow>
         may_parse (manifest_text env (steps (main env))) \<and>
         (\<forall>txt\<in>set (dump_states (manifest_text env (steps (main env)))). \<not> may_parse txt))) \<and>
   (raised (capture_loop env) \<noteq> None \<longrightarrow>
      manifest (main env) = Absent \<and> count_list (trace (main env)) JsonDump = 0)"
proof -
  let ?doc = "manifest_text env (steps (main env))"
  have c0: "count_list (trace (capture_loop env)) JsonDump = 0"
    using json_dump_not_in_loop_log(1) [of env] by (simp add: count_list_0_iff)
  have ab: "manifest (capture_loop env) = Absent"
    using loop_post_env(1) [of env] by (simp add: run_inv_def)
  have fin: "raised (capture_loop env) = None \<longrightarrow>
      main env = dump_manifest env
        (open_manifest (strftime_now env) (listener_stop (capture_loop env)))"
    by (simp add: main_finished)
  have rest: "(raised (capture_loop env) = None \<longrightarrow>
      trace (main env) = trace (capture_loop env) @
        [ListenerStop, OpenW (path_div (out_dir (strftime_now env)) ''rollout.json''), JsonDump] \<and>
      count_list (trace (main env)) JsonDump = 1 \<and>
      manifest (main env) = Written ?doc) \<and>
   (raised (capture_loop env) \<noteq> None \<longrightarrow>
      manifest (main env) = Absent \<and> count_list (trace (main env)) JsonDump = 0)"
    using c0 by (simp add: main_fields main_log main_manifest)
  have tx: "?doc =
      iterencode (json_string env) (float_repr env) 0 (meta_json (meta_of env (steps (main env))))"
    by (simp add: manifest_text_def)
  have st: "\<exists>items. meta_json (meta_of env (steps (main env))) = JDict items \<and>
      (''steps'', JList (map step_json (steps (main env)))) \<in> set items"
    by (simp add: meta_json_def meta_of_def)
  have pp: "library_ok env \<longrightarrow>
      may_parse ?doc \<and> (\<forall>txt\<in>set (dump_states ?doc). \<not> may_parse txt)"
  proof
    assume ok: "library_ok env"
    then have es: "\<forall>str. scan_neutral (json_string env str)"
      and fr: "\<forall>x. scan_neutral (float_repr env x)"
      by (simp_all add: library_ok_def)
    have a: "may_parse ?doc"
      unfolding tx by (rule container_may_parse [OF es fr meta_json_container])
    have b: "\<forall>txt\<in>set (dump_states ?doc). \<not> may_parse txt"
      unfolding tx using proper_prefix_no_parse [OF es fr meta_json_container] by blast
    from a b show "may_parse ?doc \<and> (\<forall>txt\<in>set (dump_states ?doc). \<not> may_parse txt)"
      by blast
  qed
  from fin rest ab tx st pp json_dump_not_in_loop_log(1) [of env] show ?thesis
    by blast
qed

theorem manifest_written_after_loop_witness:
  "raised (capture_loop env_stop) = None \<and> library_ok env_stop \<and>
   count_list (trace (main env_stop)) JsonDump = 1 \<and>
   manifest (main env_stop) = Written (manifest_text env_stop (steps (main env_stop))) \<and>
   map sr_t (steps (main env_stop)) = [0, 1] \<and>
   may_parse (manifest_text env_stop (steps (main env_stop))) \<and>
   take 1 (manifest_text env_stop (steps (main env_stop))) = ''{'' \<and>
   ''{'' \<in> set (dump_states (manifest_text env_stop (steps (main env_stop)))) \<and>
   \<not> may_parse ''{'' \<and>
   raised (capture_loop env_grab_fails) \<noteq> None \<and>
   manifest (main env_grab_fails) = Absent"
proof -
  let ?doc = "manifest_text env_stop (steps (main env_stop))"
  have r: "raised (capture_loop env_stop) = None"
    by (simp add: capture_loop_env_stop)
  have g: "raised (capture_loop env_grab_fails) \<noteq> None"
    by (simp add: capture_loop_env_grab_fails)
  note T = manifest_written_after_loop [of env_stop]
  note G = manifest_written_after_loop [of env_grab_fails]
  have a: "count_list (trace (main env_stop)) JsonDump = 1 \<and>
     manifest (main env_stop) = Written ?doc \<and> may_parse ?doc"
    using T r library_ok_examples(1) by blast
  have np: "\<forall>txt\<in>set (dump_states ?doc). \<not> may_parse txt"
    using T r library_ok_examples(1) by blast
  obtain rest where d: "?doc = CHR ''{'' # rest @ ''}''"
    by (simp add: manifest_text_def meta_json_def)
  then have t1: "take 1 ?doc = ''{''"
    by simp
  have "Suc 0 < length ?doc"
    using d by simp
  then have "take (Suc 0) ?doc \<in> (\<lambda>n. take n ?doc) ` {0..<length ?doc}"
    by (intro imageI) simp
  then have "take 1 ?doc \<in> set (dump_states ?doc)"
    by (simp add: dump_states_def)
  with t1 have m: "''{'' \<in> set (dump_states ?doc)"
    by simp
  with np have n: "\<not> may_parse ''{''"
    by blast
  have s: "map sr_t (steps (main env_stop)) = [0, 1]"
    by (simp add: main_env_stop)
  have f: "manifest (main env_grab_fails) = Absent"
    using G g by blast
  from r g a t1 m n s f library_ok_examples(1) show ?thesis
    by blast
qed

text \<open>
  C4. In every run, ended by an exception or not, the \<open>t\<close> fields of the appended
  StepRecords are \<open>0, 1, ..., k - 1\<close> in this order: they start at 0, increase strictly
  and have no gap. Every record is the record of a tick whose grab returned a frame. A
  tick whose grab failed has no record at all, neither a real nor a filled-in one: no
  record carries its index, and the records are those of the ticks before it.
\<close>

theorem step_index_sequence:
  "map sr_t (steps (main env)) = [0..<length (steps (main env))] \<and>
   sorted_wrt (<) (map sr_t (steps (main env))) \<and>
   (\<forall>r\<in>set (steps (main env)).
      Grab (sr_t r) True \<in> set (trace (main env)) \<and>
      Grab (sr_t r) False \<notin> set (trace (main env))) \<and>
   (Grab t False \<in> set (trace (main env)) \<longrightarrow>
      t \<notin> set (map sr_t (steps (main env))) \<and>
      map sr_t (steps (main env)) = [0..<t])"
proof -
  have m: "map sr_t (steps (capture_loop env)) = [0..<length (steps (capture_loop env))]"
    using loop_post_env(1) [of env] by (simp add: run_inv_def)
  have a: "map sr_t (steps (main env)) = [0..<length (steps (main env))]"
    using m by (simp add: main_fields)
  have b: "sorted_wrt (<) (map sr_t (steps (main env)))"
    by (simp only: a) simp
  have d: "Grab t False \<in> set (trace (main env)) \<longrightarrow>
      t \<notin> set (map sr_t (steps (main env))) \<and> map sr_t (steps (main env)) = [0..<t]" for t
  proof
    assume "Grab t False \<in> set (trace (main env))"
    from grab_false_in_log [OF this] have "length (steps (main env)) = t"
      by (simp add: main_fields)
    with a have "map sr_t (steps (main env)) = [0..<t]"
      by simp
    then show "t \<notin> set (map sr_t (steps (main env))) \<and> map sr_t (steps (main env)) = [0..<t]"
      by simp
  qed
  have c: "\<forall>r\<in>set (steps (main env)).
      Grab (sr_t r) True \<in> set (trace (main env)) \<and>
      Grab (sr_t r) False \<notin> set (trace (main env))"
  proof
    fix r assume r: "r \<in> set (steps (main env))"
    then have r': "r \<in> set (steps (capture_loop env))"
      by (simp add: main_fields)
    have "Grab (sr_t r) True \<in> set (block_of (strftime_now env) r)"
      by (simp add: block_of_def)
    with r' have "Grab (sr_t r) True \<in>
        set (concat (map (block_of (strftime_now env)) (steps (capture_loop env))))"
      by auto
    then have "Grab (sr_t r) True \<in> set (trace (capture_loop env))"
      by (subst loop_post_env(3)) simp
    then have g: "Grab (sr_t r) True \<in> set (trace (main env))"
      by (simp add: main_log)
    have "sr_t r \<in> set (map sr_t (steps (main env)))"
      using r by simp
    with d [of "sr_t r"] have "Grab (sr_t r) False \<notin> set (trace (main env))"
      by blast
    with g show "Grab (sr_t r) True \<in> set (trace (main env)) \<and>
      Grab (sr_t r) False \<notin> set (trace (main env))"
      by simp
  qed
  from a b c d [of t] show ?thesis
    by blast
qed

theorem step_index_sequence_witness:
  "map sr_t (steps (main env_stop)) = [0, 1] \<and>
   Grab 1 False \<in> set (trace (main env_grab_fails)) \<and>
   map sr_t (steps (main env_grab_fails)) = [0] \<and>
   1 \<notin> set (map sr_t (steps (main env_grab_fails))) \<and>
   steps (main env_grab_fails) ! 0 \<in> set (steps (main env_grab_fails)) \<and>
   Grab (sr_t (steps (main env_grab_fails) ! 0)) True \<in> set (trace (main env_grab_fails))"
proof -
  have h: "Grab 1 False \<in> set (trace (main env_grab_fails))"
    by (simp add: main_env_grab_fails capture_loop_env_grab_fails)
  have k: "steps (main env_grab_fails) ! 0 \<in> set (steps (main env_grab_fails))"
    by (simp add: main_env_grab_fails capture_loop_env_grab_fails)
  note T = step_index_sequence [where env = env_stop and t = 0]
  note G = step_index_sequence [where env = env_grab_fails and t = 1]
  have a: "map sr_t (steps (main env_stop)) = [0, 1]"
    using T by (simp add: main_env_stop upt_rec)
  have b: "1 \<notin> set (map sr_t (steps (main env_grab_fails))) \<and>
     map sr_t (steps (main env_grab_fails)) = [0..<1]"
    using G h by blast
  have c: "Grab (sr_t (steps (main env_grab_fails) ! 0)) True \<in> set (trace (main env_grab_fails))"
    using G k by blast
  from h k a b c show ?thesis
    by simp
qed

text \<open>
  C5, as stated, fails. In the run \<open>env_grab_fails\<close> tick 1 reads the stop flag, finds it
  clear and starts its body; the grab raises, and the tick ends there: it writes no frame
  file and appends no record. A tick in progress does not always complete.
\<close>

theorem tick_aborted_after_stop_check:
  "tick ascii_lower ''20260225_142233'' 1 (tick_inputs env_grab_fails 1) initial =
     Raise ScreenShotError (initial\<lparr>trace := [CheckStop 1 False, Grab 1 False]\<rparr>) \<and>
   CheckStop 1 False \<in> set (trace (main env_grab_fails)) \<and>
   ImWrite ''data/teleop/20260225_142233/frames/00001.jpg'' \<notin> set (trace (main env_grab_fails)) \<and>
   Append 1 \<notin> set (trace (main env_grab_fails)) \<and>
   map fst (frame_files (main env_grab_fails)) = [''data/teleop/20260225_142233/frames/00000.jpg''] \<and>
   map sr_t (steps (main env_grab_fails)) = [0]"
proof -
  have "tick ascii_lower ''20260225_142233'' 1 (tick_inputs env_grab_fails 1) initial =
     Raise ScreenShotError (initial\<lparr>trace := [CheckStop 1 False, Grab 1 False]\<rparr>)"
    by (subst tick_Raise) (simp_all add: env_grab_fails_def quiet_def initial_def)
  then show ?thesis
    by (simp add: main_env_grab_fails capture_loop_env_grab_fails)
qed

text \<open>
  C5, amended. The stop flag is read once per pass through the loop, as the first effect
  of the pass, before any capture work. When it is set at that point the loop is left with
  nothing else done. When it is not set and the grab returns a frame, the tick writes its
  frame file and appends its record whatever keys arrive during the tick, the stop key
  included: the stop flag never ends a tick in progress; a stop set during a tick shows
  in the state after the tick and is honoured at the next read. When the grab raises, the
  tick ends there with the run, by the exception and not by the stop flag. The trace of
  every run is a sequence of completed blocks, each with exactly one stop check at its
  head, followed by the last, uncompleted pass. So in every run in which the stop flag is
  honoured, at the top of some tick \<open>t\<close>, every tick started before has run to its end:
  the ticks \<open>0, ..., t - 1\<close> each wrote their frame file and appended their record.
\<close>

theorem stop_checked_once_per_tick:
  "(stop_flag (deliver lw (before_check inp) s) \<longrightarrow>
      tick lw rid t inp s = Break ((deliver lw (before_check inp) s)\<lparr>trace := trace s @ [CheckStop t True]\<rparr>)) \<and>
   (\<not> stop_flag (deliver lw (before_check inp) s) \<and> grab inp = Some obs \<longrightarrow>
      (\<exists>s'. tick lw rid t inp s = Continue s' \<and>
         steps s' = steps s @ [tick_record t (clock inp) (held s')] \<and>
         frame_files s' = frame_files s @ [(frame_path rid t, obs, JPEG_QUALITY)] \<and>
         trace s' = trace s @ [CheckStop t False, Grab t True, Snapshot t (held s'),
                           ImWrite (frame_path rid t), Append t] \<and>
         stop_flag s' = stop_flag (deliver lw (before_snapshot inp) (deliver lw (before_check inp) s)))) \<and>
   (\<not> stop_flag (deliver lw (before_check inp) s) \<and> grab inp = None \<longrightarrow>
      tick lw rid t inp s = Raise ScreenShotError
        ((deliver lw (before_check inp) s)\<lparr>trace := trace s @ [CheckStop t False, Grab t False]\<rparr>)) \<and>
   trace (capture_loop env) =
     concat (map (block_of (strftime_now env)) (steps (capture_loop env))) @
     exit_log N_STEPS_MAX (capture_loop env) \<and>
   (CheckStop t True \<in> set (trace (main env)) \<longrightarrow>
      trace (capture_loop env) =
        concat (map (block_of (strftime_now env)) (steps (main env))) @ [CheckStop t True] \<and>
      map sr_t (steps (main env)) = [0..<t] \<and>
      map fst (frame_files (main env)) = map (frame_path (strftime_now env)) [0..<t])"
proof -
  have a: "stop_flag (deliver lw (before_check inp) s) \<longrightarrow>
      tick lw rid t inp s = Break ((deliver lw (before_check inp) s)\<lparr>trace := trace s @ [CheckStop t True]\<rparr>)"
    by (simp add: tick_Break)
  have b: "\<not> stop_flag (deliver lw (before_check inp) s) \<and> grab inp = Some obs \<longrightarrow>
      (\<exists>s'. tick lw rid t inp s = Continue s' \<and>
         steps s' = steps s @ [tick_record t (clock inp) (held s')] \<and>
         frame_files s' = frame_files s @ [(frame_path rid t, obs, JPEG_QUALITY)] \<and>
         trace s' = trace s @ [CheckStop t False, Grab t True, Snapshot t (held s'),
                           ImWrite (frame_path rid t), Append t] \<and>
         stop_flag s' = stop_flag (deliver lw (before_snapshot inp) (deliver lw (before_check inp) s)))"
  proof
    assume h: "\<not> stop_flag (deliver lw (before_check inp) s) \<and> grab inp = Some obs"
    then have "tick lw rid t inp s = Continue
       ((deliver lw (before_snapshot inp) (deliver lw (before_check inp) s))
          \<lparr>steps := steps s @ [tick_record t (clock inp)
                (held (deliver lw (before_snapshot inp) (deliver lw (before_check inp) s)))],
           frame_files := frame_files s @ [(frame_path rid t, obs, JPEG_QUALITY)],
           trace := trace s @ [CheckStop t False, Grab t True,
              Snapshot t (held (deliver lw (before_snapshot inp) (deliver lw (before_check inp) s))),
              ImWrite (frame_path rid t), Append t]\<rparr>)"
      by (intro tick_Continue) simp_all
    then show "\<exists>s'. tick lw rid t inp s = Continue s' \<and>
         steps s' = steps s @ [tick_record t (clock inp) (held s')] \<and>
         frame_files s' = frame_files s @ [(frame_path rid t, obs, JPEG_QUALITY)] \<and>
         trace s' = trace s @ [CheckStop t False, Grab t True, Snapshot t (held s'),
                           ImWrite (frame_path rid t), Append t] \<and>
         stop_flag s' = stop_flag (deliver lw (before_snapshot inp) (deliver lw (before_check inp) s))"
      by simp
  qed
  have c: "trace (capture_loop env) =
     concat (map (block_of (strftime_now env)) (steps (capture_loop env))) @
     exit_log N_STEPS_MAX (capture_loop env)"
    by (rule loop_post_env(3))
  have d: "CheckStop t True \<in> set (trace (main env)) \<longrightarrow>
      trace (capture_loop env) =
        concat (map (block_of (strftime_now env)) (steps (main env))) @ [CheckStop t True] \<and>
      map sr_t (steps (main env)) = [0..<t] \<and>
      map fst (frame_files (main env)) = map (frame_path (strftime_now env)) [0..<t]"
  proof
    assume h: "CheckStop t True \<in> set (trace (main env))"
    from check_true_in_log [OF h]
    have r: "raised (capture_loop env) = None" and l: "length (steps (capture_loop env)) = t"
      and n: "t < N_STEPS_MAX" by simp_all
    have e: "exit_log N_STEPS_MAX (capture_loop env) = [CheckStop t True]"
      using r l n by (simp add: exit_log_def)
    have m: "map sr_t (steps (capture_loop env)) = [0..<t]"
      using loop_post_env(1) [of env] l by (simp add: run_inv_def)
    have f: "map fst (frame_files (capture_loop env)) = map (frame_path (strftime_now env)) [0..<t]"
      using frame_files_paths [of env] l by simp
    from c e m f show "trace (capture_loop env) =
        concat (map (block_of (strftime_now env)) (steps (main env))) @ [CheckStop t True] \<and>
      map sr_t (steps (main env)) = [0..<t] \<and>
      map fst (frame_files (main env)) = map (frame_path (strftime_now env)) [0..<t]"
      by (simp add: main_fields)
  qed
  have e: "\<not> stop_flag (deliver lw (before_check inp) s) \<and> grab inp = None \<longrightarrow>
      tick lw rid t inp s = Raise ScreenShotError
        ((deliver lw (before_check inp) s)\<lparr>trace := trace s @ [CheckStop t False, Grab t False]\<rparr>)"
    by (simp add: tick_Raise)
  from a b c d e show ?thesis by blast
qed

theorem stop_checked_once_per_tick_witness:
  "\<not> stop_flag (deliver ascii_lower (before_check esc_mid_tick) initial) \<and>
   grab esc_mid_tick = Some [0] \<and>
   stop_flag (deliver ascii_lower (before_snapshot esc_mid_tick) (deliver ascii_lower (before_check esc_mid_tick) initial)) \<and>
   (case tick ascii_lower ''run'' 0 esc_mid_tick initial of
      Continue s' \<Rightarrow> stop_flag s' \<and> map sr_t (steps s') = [0] \<and>
         map fst (frame_files s') = [frame_path ''run'' 0]
    | _ \<Rightarrow> False) \<and>
   stop_flag (deliver ascii_lower (before_check quiet) (initial\<lparr>stop_flag := True\<rparr>)) \<and>
   tick ascii_lower ''run'' 1 quiet (initial\<lparr>stop_flag := True\<rparr>) =
     Break (initial\<lparr>stop_flag := True, trace := [CheckStop 1 True]\<rparr>) \<and>
   \<not> stop_flag (deliver ascii_lower (before_check (quiet\<lparr>grab := None\<rparr>)) initial) \<and>
   grab (quiet\<lparr>grab := None\<rparr>) = None \<and>
   tick ascii_lower ''run'' 3 (quiet\<lparr>grab := None\<rparr>) initial =
     Raise ScreenShotError (initial\<lparr>trace := [CheckStop 3 False, Grab 3 False]\<rparr>) \<and>
   CheckStop 2 True \<in> set (trace (main env_stop)) \<and>
   map sr_t (steps (main env_stop)) = [0, 1] \<and>
   map fst (frame_files (main env_stop)) =
     [''data/teleop/20260225_142233/frames/00000.jpg'',
      ''data/teleop/20260225_142233/frames/00001.jpg'']"
proof -
  have h: "\<not> stop_flag (deliver ascii_lower (before_check esc_mid_tick) initial) \<and> grab esc_mid_tick = Some [0]"
    by (simp add: esc_mid_tick_def quiet_def initial_def)
  have e: "stop_flag (deliver ascii_lower (before_snapshot esc_mid_tick) (deliver ascii_lower (before_check esc_mid_tick) initial))"
    by (simp add: esc_mid_tick_def eval_simps)
  have b: "stop_flag (deliver ascii_lower (before_check quiet) (initial\<lparr>stop_flag := True\<rparr>))"
    by (simp add: quiet_def)
  have k: "CheckStop 2 True \<in> set (trace (main env_stop))"
    by (simp add: main_env_stop)
  note T1 = stop_checked_once_per_tick [where lw = ascii_lower and inp = esc_mid_tick and s = initial and obs = "[0]"
      and rid = "''run''" and t = 0 and env = env_stop]
  note T2 = stop_checked_once_per_tick [where lw = ascii_lower and inp = quiet and s = "initial\<lparr>stop_flag := True\<rparr>"
      and obs = "[0]" and rid = "''run''" and t = 1 and env = env_stop]
  note T3 = stop_checked_once_per_tick [where lw = ascii_lower and inp = quiet and s = initial
      and obs = "[0]" and rid = "''run''" and t = 2 and env = env_stop]
  note T4 = stop_checked_once_per_tick [where lw = ascii_lower and inp = "quiet\<lparr>grab := None\<rparr>"
      and s = initial and obs = "[0]" and rid = "''run''" and t = 3 and env = env_stop]
  have g: "\<not> stop_flag (deliver ascii_lower (before_check (quiet\<lparr>grab := None\<rparr>)) initial) \<and>
     grab (quiet\<lparr>grab := None\<rparr>) = None"
    by (simp add: quiet_def initial_def)
  have r: "tick ascii_lower ''run'' 3 (quiet\<lparr>grab := None\<rparr>) initial =
     Raise ScreenShotError (initial\<lparr>trace := [CheckStop 3 False, Grab 3 False]\<rparr>)"
    using T4 g by (simp add: quiet_def initial_def)
  from T1 h
  obtain s' where s': "tick ascii_lower ''run'' 0 esc_mid_tick initial = Continue s'"
    "steps s' = steps initial @ [tick_record 0 (clock esc_mid_tick) (held s')]"
    "frame_files s' = frame_files initial @ [(frame_path ''run'' 0, [0], JPEG_QUALITY)]"
    "stop_flag s' = stop_flag (deliver ascii_lower (before_snapshot esc_mid_tick) (deliver ascii_lower (before_check esc_mid_tick) initial))"
    by blast
  have c: "(case tick ascii_lower ''run'' 0 esc_mid_tick initial of
      Continue s' \<Rightarrow> stop_flag s' \<and> map sr_t (steps s') = [0] \<and>
         map fst (frame_files s') = [frame_path ''run'' 0]
    | _ \<Rightarrow> False)"
    using s' e by (simp add: initial_def tick_record_def)
  have d: "tick ascii_lower ''run'' 1 quiet (initial\<lparr>stop_flag := True\<rparr>) =
     Break (initial\<lparr>stop_flag := True, trace := [CheckStop 1 True]\<rparr>)"
    using T2 b by (simp add: quiet_def initial_def)
  have f: "map sr_t (steps (main env_stop)) = [0, 1] \<and>
     map fst (frame_files (main env_stop)) =
       [''data/teleop/20260225_142233/frames/00000.jpg'',
        ''data/teleop/20260225_142233/frames/00001.jpg'']"
    using T3 k by (simp add: main_env_stop)
  from h e c b d k f g r show ?thesis by simp
qed

text \<open>
  C6. The loop is a total function: it returns for every environment. A run starts at
  most \<open>N_STEPS_MAX\<close> ticks and appends at most \<open>N_STEPS_MAX\<close> StepRecords. When the stop
  flag is found set at the top of tick \<open>t\<close>, the loop is left there: exactly \<open>t\<close> ticks
  were started and \<open>t\<close> records appended. From tick index \<open>n\<close> on a loop capped at \<open>n\<close> does
  nothing. A run that no exception ends and whose stop flag is never set runs all
  \<open>N_STEPS_MAX\<close> ticks.
\<close>

theorem capture_loop_bounded:
  "length (steps (main env)) \<le> N_STEPS_MAX \<and>
   ticks_started (trace (main env)) \<le> N_STEPS_MAX \<and>
   (CheckStop t True \<in> set (trace (main env)) \<longrightarrow>
      t < N_STEPS_MAX \<and> length (steps (main env)) = t \<and> ticks_started (trace (main env)) = t \<and>
      raised (main env) = None) \<and>
   (t < n \<and> stop_flag (deliver lw (before_check (inputs t)) s) \<longrightarrow>
      loop lw n rid inputs t s = (deliver lw (before_check (inputs t)) s)\<lparr>trace := trace s @ [CheckStop t True]\<rparr>) \<and>
   (n \<le> t \<longrightarrow> loop lw n rid inputs t s = s) \<and>
   (raised (main env) = None \<and> \<not> stop_flag (main env) \<longrightarrow>
      length (steps (main env)) = N_STEPS_MAX)"
proof -
  have a: "length (steps (main env)) \<le> N_STEPS_MAX"
    using loop_post_env(2) [of env] by (simp add: main_fields)
  have b: "ticks_started (trace (main env)) \<le> N_STEPS_MAX"
    using loop_post_env(2,5) [of env] by (auto simp: ticks_started_main)
  have c: "CheckStop t True \<in> set (trace (main env)) \<longrightarrow>
      t < N_STEPS_MAX \<and> length (steps (main env)) = t \<and> ticks_started (trace (main env)) = t \<and>
      raised (main env) = None"
    using check_true_in_log [of t env] by (simp add: main_fields ticks_started_main)
  have d: "t < n \<and> stop_flag (deliver lw (before_check (inputs t)) s) \<longrightarrow>
      loop lw n rid inputs t s = (deliver lw (before_check (inputs t)) s)\<lparr>trace := trace s @ [CheckStop t True]\<rparr>"
    by (simp add: tick_Break)
  have e: "n \<le> t \<longrightarrow> loop lw n rid inputs t s = s"
    by simp
  have f: "raised (main env) = None \<and> \<not> stop_flag (main env) \<longrightarrow>
      length (steps (main env)) = N_STEPS_MAX"
  proof
    assume h: "raised (main env) = None \<and> \<not> stop_flag (main env)"
    then have r: "raised (capture_loop env) = None" and ns: "\<not> stop_flag (capture_loop env)"
      by (simp_all add: main_fields)
    from loop_post_env(6) [OF r] ns have "\<not> length (steps (capture_loop env)) < N_STEPS_MAX"
      by blast
    with loop_post_env(2) [of env] show "length (steps (main env)) = N_STEPS_MAX"
      by (simp add: main_fields)
  qed
  from a b c d e f show ?thesis by blast
qed

theorem capture_loop_bounded_witness:
  "CheckStop 2 True \<in> set (trace (main env_stop)) \<and>
   length (steps (main env_stop)) = 2 \<and>
   ticks_started (trace (main env_stop)) = 2 \<and>
   stop_flag (deliver ascii_lower (before_check (tick_inputs env_stop 5)) (initial\<lparr>stop_flag := True\<rparr>)) \<and>
   loop ascii_lower 10 ''run'' (tick_inputs env_stop) 5 (initial\<lparr>stop_flag := True\<rparr>) =
     initial\<lparr>stop_flag := True, trace := [CheckStop 5 True]\<rparr> \<and>
   loop ascii_lower 10 ''run'' (tick_inputs env_stop) 10 initial = initial \<and>
   raised (main env_quiet) = None \<and> \<not> stop_flag (main env_quiet) \<and>
   length (steps (main env_quiet)) = 10000"
proof -
  have h1: "CheckStop 2 True \<in> set (trace (main env_stop))"
    by (simp add: main_env_stop)
  have h2: "stop_flag (deliver ascii_lower (before_check (tick_inputs env_stop 5)) (initial\<lparr>stop_flag := True\<rparr>))"
    by (simp add: env_stop_def quiet_def)
  have d2: "deliver ascii_lower (before_check (tick_inputs env_stop 5)) (initial\<lparr>stop_flag := True\<rparr>) =
      initial\<lparr>stop_flag := True\<rparr>"
    by (simp add: env_stop_def quiet_def)
  note T1 = capture_loop_bounded [where lw = ascii_lower and env = env_stop and t = 2 and n = 10 and s = initial
      and inputs = "tick_inputs env_stop" and rid = "''run''"]
  note T2 = capture_loop_bounded [where lw = ascii_lower and env = env_quiet and t = 5 and n = 10
      and s = "initial\<lparr>stop_flag := True\<rparr>" and inputs = "tick_inputs env_stop" and rid = "''run''"]
  note T3 = capture_loop_bounded [where lw = ascii_lower and env = env_quiet and t = 10 and n = 10 and s = initial
      and inputs = "tick_inputs env_stop" and rid = "''run''"]
  have a: "length (steps (main env_stop)) = 2 \<and> ticks_started (trace (main env_stop)) = 2"
    using T1 h1 by blast
  have b: "loop ascii_lower 10 ''run'' (tick_inputs env_stop) 5 (initial\<lparr>stop_flag := True\<rparr>) =
     initial\<lparr>stop_flag := True, trace := [CheckStop 5 True]\<rparr>"
    using T2 h2 by (simp add: d2) (simp add: initial_def)
  have c: "loop ascii_lower 10 ''run'' (tick_inputs env_stop) 10 initial = initial"
    using T3 by blast
  have d: "length (steps (main env_quiet)) = 10000"
    using T3 main_env_quiet by (simp add: N_STEPS_MAX_def)
  from h1 h2 a b c d main_env_quiet show ?thesis by blast
qed

text \<open>
  C7. \<open>_key_to_name\<close> maps every character key to \<open>str.lower\<close> of its character,
  whatever the character is: so every alphanumeric key goes to its lowercase character.
  It maps the nine special keys to \<open>up\<close>, \<open>down\<close>, \<open>left\<close>, \<open>right\<close>, \<open>esc\<close>,
  \<open>enter\<close>, \<open>tab\<close>, \<open>left_shift\<close>, \<open>right_shift\<close>. The keys it does not recognise
  are the key codes without a character and the other special keys; for those,
  \<open>on_press\<close> and \<open>on_release\<close> return normally and leave the shared state, \<open>held\<close>
  included, as it was. Here \<open>lw\<close> stands for \<open>str.lower\<close>.
\<close>

theorem key_to_name_spec:
  "key_to_name lw (KeyCode (Some c)) = Some (lw c) \<and>
   key_to_name lw (Key Key_up) = Some ''up'' \<and>
   key_to_name lw (Key Key_down) = Some ''down'' \<and>
   key_to_name lw (Key Key_left) = Some ''left'' \<and>
   key_to_name lw (Key Key_right) = Some ''right'' \<and>
   key_to_name lw (Key Key_esc) = Some ''esc'' \<and>
   key_to_name lw (Key Key_enter) = Some ''enter'' \<and>
   key_to_name lw (Key Key_tab) = Some ''tab'' \<and>
   key_to_name lw (Key Key_shift) = Some ''left_shift'' \<and>
   key_to_name lw (Key Key_shift_r) = Some ''right_shift'' \<and>
   (key_to_name lw k = None \<longleftrightarrow> k = KeyCode None \<or> (\<exists>n. k = Key (Key_other n))) \<and>
   (key_to_name lw k = None \<longrightarrow>
      on_press lw k s = (RetNone, s) \<and> on_release lw k s = (RetNone, s) \<and>
      dispatch lw (Press k) s = s \<and> dispatch lw (Release k) s = s)"
proof -
  have b: "key_to_name lw (KeyCode (Some c)) = Some (lw c)"
    by (simp add: key_to_name_def char_attr_def)
  have c: "key_to_name lw (Key Key_up) = Some ''up''"
    "key_to_name lw (Key Key_down) = Some ''down''"
    "key_to_name lw (Key Key_left) = Some ''left''"
    "key_to_name lw (Key Key_right) = Some ''right''"
    "key_to_name lw (Key Key_esc) = Some ''esc''"
    "key_to_name lw (Key Key_enter) = Some ''enter''"
    "key_to_name lw (Key Key_tab) = Some ''tab''"
    "key_to_name lw (Key Key_shift) = Some ''left_shift''"
    "key_to_name lw (Key Key_shift_r) = Some ''right_shift''"
    by (simp_all add: key_to_name_def char_attr_def special_name_def)
  have d: "key_to_name lw k = None \<longrightarrow>
      on_press lw k s = (RetNone, s) \<and> on_release lw k s = (RetNone, s) \<and>
      dispatch lw (Press k) s = s \<and> dispatch lw (Release k) s = s"
    using unrecognized_ignored [of lw k s] by blast
  from b c d key_to_name_None [of lw k] show ?thesis
    by blast
qed

theorem key_to_name_spec_witness:
  "key_to_name ascii_lower (KeyCode (Some ''W'')) = Some ''w'' \<and>
   key_to_name ascii_lower (KeyCode (Some ''7'')) = Some ''7'' \<and>
   key_to_name ascii_lower (Key (Key_other 1)) = None \<and>
   on_press ascii_lower (Key (Key_other 1)) initial = (RetNone, initial) \<and>
   on_release ascii_lower (Key (Key_other 1)) initial = (RetNone, initial)"
proof -
  have lw: "ascii_lower ''W'' = ''w''"
    by code_simp
  have l7: "ascii_lower ''7'' = ''7''"
    by code_simp
  note T1 = key_to_name_spec [where lw = ascii_lower and c = "''W''"
      and k = "Key (Key_other 1)" and s = initial]
  note T2 = key_to_name_spec [where lw = ascii_lower and c = "''7''"
      and k = "Key (Key_other 1)" and s = initial]
  have n: "key_to_name ascii_lower (Key (Key_other 1)) = None"
    using T1 by blast
  have w: "key_to_name ascii_lower (KeyCode (Some ''W'')) = Some ''w''"
    using T1 lw by simp
  have s: "key_to_name ascii_lower (KeyCode (Some ''7'')) = Some ''7''"
    using T2 l7 by simp
  have p: "on_press ascii_lower (Key (Key_other 1)) initial = (RetNone, initial) \<and>
     on_release ascii_lower (Key (Key_other 1)) initial = (RetNone, initial)"
    using T1 n by blast
  from n w s p show ?thesis by blast
qed

text \<open>
  C8. The frame of tick \<open>t\<close> is written to \<open>frames/\<close> under the name made of \<open>t\<close> in five
  decimal digits, zero-padded, and \<open>.jpg\<close>. For tick indices \<open>s < t\<close> below the step cap
  the name of \<open>s\<close> is smaller than the name of \<open>t\<close> as a string (so are the full paths)
  and as a number, the number a name denotes being its tick index. In every run the files
  written are those of the ticks \<open>0, ..., k - 1\<close> that appended a record, in this order,
  and the \<open>frame\<close> field of each record, taken relative to the run directory, is the path
  of the file written in its tick.
\<close>

theorem frame_names_ordered:
  "(s < t \<and> t < N_STEPS_MAX \<longrightarrow>
      frame_name s < frame_name t \<and>
      numeric_value (frame_name s) < numeric_value (frame_name t) \<and>
      frame_path rid s < frame_path rid t) \<and>
   (t < N_STEPS_MAX \<longrightarrow>
      frame_name t = fixed_width 5 t @ ''.jpg'' \<and> length (frame_name t) = 9 \<and>
      numeric_value (frame_name t) = t) \<and>
   frame_path rid t = path_div (out_dir rid) (frame_ref t) \<and>
   map fst (frame_files (main env)) =
     map (frame_path (strftime_now env)) [0..<length (steps (main env))] \<and>
   map fst (frame_files (main env)) =
     map (\<lambda>r. path_div (out_dir (strftime_now env)) (sr_frame r)) (steps (main env)) \<and>
   (\<forall>r\<in>set (steps (main env)).
      sr_t r < N_STEPS_MAX \<and> sr_frame r = ''frames/'' @ frame_name (sr_t r))"
proof -
  have a: "s < t \<and> t < N_STEPS_MAX \<longrightarrow>
      frame_name s < frame_name t \<and>
      numeric_value (frame_name s) < numeric_value (frame_name t) \<and>
      frame_path rid s < frame_path rid t"
    using frame_name_less [of s t] frame_name_value [of s] frame_name_value [of t]
      frame_path_less [of s t rid]
    by simp
  have b: "t < N_STEPS_MAX \<longrightarrow>
      frame_name t = fixed_width 5 t @ ''.jpg'' \<and> length (frame_name t) = 9 \<and>
      numeric_value (frame_name t) = t"
    using frame_name_fixed [of t] frame_name_value [of t] by (simp add: length_fixed_width)
  have c: "frame_path rid t = path_div (out_dir rid) (frame_ref t)"
    by (rule frame_path_ref)
  have d: "map fst (frame_files (main env)) =
     map (frame_path (strftime_now env)) [0..<length (steps (main env))]"
    using frame_files_paths [of env] by (simp add: main_fields)
  have f: "\<forall>r\<in>set (steps (main env)).
      sr_t r < N_STEPS_MAX \<and> sr_frame r = ''frames/'' @ frame_name (sr_t r)"
  proof
    fix r assume r: "r \<in> set (steps (main env))"
    then have r': "r \<in> set (steps (capture_loop env))" by (simp add: main_fields)
    have m: "map sr_t (steps (capture_loop env)) = [0..<length (steps (capture_loop env))]"
      using loop_post_env(1) [of env] by (simp add: run_inv_def)
    from nth_of_index_list [OF m r'] loop_post_env(2) [of env] have "sr_t r < N_STEPS_MAX"
      by simp
    moreover from records_ok [OF r'] have "sr_frame r = ''frames/'' @ frame_name (sr_t r)"
      by (simp add: record_ok_def frame_ref_def frame_name_def)
    ultimately show "sr_t r < N_STEPS_MAX \<and> sr_frame r = ''frames/'' @ frame_name (sr_t r)"
      by simp
  qed
  have e: "map fst (frame_files (main env)) =
     map (\<lambda>r. path_div (out_dir (strftime_now env)) (sr_frame r)) (steps (main env))"
  proof -
    have "map fst (frame_files (capture_loop env)) =
        map (\<lambda>r. frame_path (strftime_now env) (sr_t r)) (steps (capture_loop env))"
      using loop_post_env(1) [of env] by (simp add: run_inv_def)
    also have "\<dots> = map (\<lambda>r. path_div (out_dir (strftime_now env)) (sr_frame r)) (steps (capture_loop env))"
      using records_ok [of _ env] by (simp add: frame_path_ref record_ok_def)
    finally show ?thesis by (simp add: main_fields)
  qed
  from a b c d e f show ?thesis by blast
qed

theorem frame_names_ordered_witness:
  "(9::nat) < 10 \<and> (10::nat) < N_STEPS_MAX \<and>
   frame_name 9 = ''00009.jpg'' \<and> frame_name 10 = ''00010.jpg'' \<and>
   frame_name 9 < frame_name 10 \<and>
   numeric_value (frame_name 9) < numeric_value (frame_name 10) \<and>
   map fst (frame_files (main env_stop)) =
     [''data/teleop/20260225_142233/frames/00000.jpg'',
      ''data/teleop/20260225_142233/frames/00001.jpg''] \<and>
   map (\<lambda>r. path_div (out_dir (strftime_now env_stop)) (sr_frame r)) (steps (main env_stop)) =
     [''data/teleop/20260225_142233/frames/00000.jpg'',
      ''data/teleop/20260225_142233/frames/00001.jpg'']"
proof -
  have h: "(9::nat) < 10 \<and> (10::nat) < N_STEPS_MAX"
    by (simp add: N_STEPS_MAX_def)
  have n9: "frame_name 9 = ''00009.jpg''" by code_simp
  have n10: "frame_name 10 = ''00010.jpg''" by code_simp
  note T = frame_names_ordered [where s = 9 and t = 10 and env = env_stop and rid = "''run''"]
  have o: "frame_name 9 < frame_name 10 \<and>
     numeric_value (frame_name 9) < numeric_value (frame_name 10)"
    using T h by blast
  have f: "map fst (frame_files (main env_stop)) =
     [''data/teleop/20260225_142233/frames/00000.jpg'',
      ''data/teleop/20260225_142233/frames/00001.jpg'']"
    by (simp add: main_env_stop)
  have "map fst (frame_files (main env_stop)) =
     map (\<lambda>r. path_div (out_dir (strftime_now env_stop)) (sr_frame r)) (steps (main env_stop))"
    using T by blast
  with f have g: "map (\<lambda>r. path_div (out_dir (strftime_now env_stop)) (sr_frame r)) (steps (main env_stop)) =
     [''data/teleop/20260225_142233/frames/00000.jpg'',
      ''data/teleop/20260225_142233/frames/00001.jpg'']"
    by simp
  from h n9 n10 o f g show ?thesis by blast
qed

text \<open>
  C9. The name \<open>esc\<close> is never in \<open>held\<close>: not after any sequence of key events
  delivered to the listener from the initial state, and not at the end of any run. On a
  key named \<open>esc\<close>, \<open>on_press\<close> sets the stop flag and returns \<open>False\<close> without
  touching \<open>held\<close>, and \<open>on_release\<close>, discarding a name that is absent, changes nothing.
  So no appended StepRecord lists \<open>esc\<close> among its held keys, and the action bit of the
  channel \<open>menu\<close> (index 6, aliases \<open>esc\<close> and \<open>tab\<close>) is 1 exactly when \<open>tab\<close> is among
  them.
\<close>

theorem esc_never_held:
  "''esc'' \<notin> held (deliver lw evs initial) \<and>
   ''esc'' \<notin> held (main env) \<and>
   (\<forall>r\<in>set (steps (main env)).
      ''esc'' \<notin> set (sr_held_keys r) \<and>
      (sr_action r ! 6 = 1 \<longleftrightarrow> ''tab'' \<in> set (sr_held_keys r))) \<and>
   KEYMAP ! 6 = (''menu'', {''esc'', ''tab''}) \<and>
   (key_to_name lw k = Some ''esc'' \<longrightarrow>
      on_press lw k s = (RetFalse, s\<lparr>stop_flag := True\<rparr>) \<and>
      held (snd (on_press lw k s)) = held s \<and>
      (''esc'' \<notin> held s \<longrightarrow> on_release lw k s = (RetNone, s)))"
proof -
  have a: "''esc'' \<notin> held (deliver lw evs initial)"
    by (rule deliver_no_esc) (simp add: initial_def)
  have b: "''esc'' \<notin> held (main env)"
    using loop_post_env(1) [of env] by (simp add: main_fields run_inv_def)
  have c: "\<forall>r\<in>set (steps (main env)).
      ''esc'' \<notin> set (sr_held_keys r) \<and>
      (sr_action r ! 6 = 1 \<longleftrightarrow> ''tab'' \<in> set (sr_held_keys r))"
  proof
    fix r assume "r \<in> set (steps (main env))"
    then have "record_ok r" by (simp add: main_fields records_ok)
    then have "''esc'' \<notin> set (sr_held_keys r)"
      and "sr_action r = encode (set (sr_held_keys r)) KEYMAP"
      by (simp_all add: record_ok_def)
    then show "''esc'' \<notin> set (sr_held_keys r) \<and>
      (sr_action r ! 6 = 1 \<longleftrightarrow> ''tab'' \<in> set (sr_held_keys r))"
      using menu_bit [of "set (sr_held_keys r)"] by simp
  qed
  have d: "key_to_name lw k = Some ''esc'' \<longrightarrow>
      on_press lw k s = (RetFalse, s\<lparr>stop_flag := True\<rparr>) \<and>
      held (snd (on_press lw k s)) = held s \<and>
      (''esc'' \<notin> held s \<longrightarrow> on_release lw k s = (RetNone, s))"
    using esc_press [of lw k s] esc_release [of lw k s] by blast
  from a b c d menu_entry show ?thesis by blast
qed

theorem esc_never_held_witness:
  "key_to_name ascii_lower (Key Key_esc) = Some ''esc'' \<and>
   ''esc'' \<notin> held initial \<and>
   on_press ascii_lower (Key Key_esc) initial = (RetFalse, initial\<lparr>stop_flag := True\<rparr>) \<and>
   on_release ascii_lower (Key Key_esc) initial = (RetNone, initial) \<and>
   map sr_held_keys (steps (main env_stop)) = [[''w''], [''tab'', ''w'']] \<and>
   map (\<lambda>r. sr_action r ! 6) (steps (main env_stop)) = [0, 1] \<and>
   steps (main env_stop) ! 1 \<in> set (steps (main env_stop)) \<and>
   ''esc'' \<notin> set (sr_held_keys (steps (main env_stop) ! 1)) \<and>
   ''tab'' \<in> set (sr_held_keys (steps (main env_stop) ! 1))"
proof -
  have h: "key_to_name ascii_lower (Key Key_esc) = Some ''esc''"
    by (simp add: key_to_name_def char_attr_def special_name_def)
  have i: "''esc'' \<notin> held initial"
    by (simp add: initial_def)
  note T = esc_never_held [where lw = ascii_lower and evs = "[]" and env = env_stop and k = "Key Key_esc" and s = initial]
  have p: "on_press ascii_lower (Key Key_esc) initial = (RetFalse, initial\<lparr>stop_flag := True\<rparr>) \<and>
     on_release ascii_lower (Key Key_esc) initial = (RetNone, initial)"
    using T h i by blast
  have m: "steps (main env_stop) ! 1 \<in> set (steps (main env_stop))"
    by (simp add: main_env_stop)
  have b: "sr_action (steps (main env_stop) ! 1) ! 6 = 1"
    by (simp add: main_env_stop)
  have r: "''esc'' \<notin> set (sr_held_keys (steps (main env_stop) ! 1)) \<and>
     ''tab'' \<in> set (sr_held_keys (steps (main env_stop) ! 1))"
    using T m b by blast
  have e: "map sr_held_keys (steps (main env_stop)) = [[''w''], [''tab'', ''w'']] \<and>
     map (\<lambda>r. sr_action r ! 6) (steps (main env_stop)) = [0, 1]"
    by (simp add: main_env_stop)
  from h i p r e m show ?thesis by blast
qed

text \<open>
  C10. Every appended StepRecord is consistent with itself. Its action vector has one
  entry per keymap entry, and entry \<open>i\<close> is 1 exactly when the names in \<open>held_keys\<close>
  meet the aliases of keymap entry \<open>i\<close>; its \<open>held_keys\<close> is sorted and without
  repetition; and the set of its names is the one copy of \<open>held\<close> taken in its tick.
  Conversely, each copy of \<open>held\<close> taken in a tick \<open>t\<close> is the source of both fields of
  record \<open>t\<close>: \<open>held_keys\<close> is its sorted list and \<open>action\<close> its encoding.
\<close>

theorem record_consistent:
  "(\<forall>r\<in>set (steps (main env)).
      length (sr_action r) = length KEYMAP \<and>
      (\<forall>i<length KEYMAP.
         sr_action r ! i = 1 \<longleftrightarrow> set (sr_held_keys r) \<inter> snd (KEYMAP ! i) \<noteq> {}) \<and>
      sorted (sr_held_keys r) \<and> distinct (sr_held_keys r) \<and>
      Snapshot (sr_t r) (set (sr_held_keys r)) \<in> set (trace (main env))) \<and>
   (\<forall>t H. Snapshot t H \<in> set (trace (main env)) \<longrightarrow>
      t < length (steps (main env)) \<and>
      sr_t (steps (main env) ! t) = t \<and>
      sr_held_keys (steps (main env) ! t) = sorted_list_of_set H \<and>
      sr_action (steps (main env) ! t) = encode H KEYMAP)"
proof (intro conjI ballI allI impI)
  fix r assume r: "r \<in> set (steps (main env))"
  then have r': "r \<in> set (steps (capture_loop env))" by (simp add: main_fields)
  from records_ok [OF r'] have ok: "sorted (sr_held_keys r)" "distinct (sr_held_keys r)"
    "sr_action r = encode (set (sr_held_keys r)) KEYMAP"
    by (simp_all add: record_ok_def)
  show "length (sr_action r) = length KEYMAP"
    by (simp add: ok(3) encode_eq)
  show "sorted (sr_held_keys r)" by (rule ok(1))
  show "distinct (sr_held_keys r)" by (rule ok(2))
  show "Snapshot (sr_t r) (set (sr_held_keys r)) \<in> set (trace (main env))"
    using r' by (auto simp: snapshot_in_log)
  fix i assume "i < length KEYMAP"
  then show "sr_action r ! i = 1 \<longleftrightarrow> set (sr_held_keys r) \<inter> snd (KEYMAP ! i) \<noteq> {}"
    by (auto simp: ok(3) encode_eq)
next
  fix t H assume "Snapshot t H \<in> set (trace (main env))"
  then obtain r where r: "r \<in> set (steps (capture_loop env))" "sr_t r = t" "H = set (sr_held_keys r)"
    by (auto simp: snapshot_in_log)
  have m: "map sr_t (steps (capture_loop env)) = [0..<length (steps (capture_loop env))]"
    using loop_post_env(1) [of env] by (simp add: run_inv_def)
  from nth_of_index_list [OF m r(1)] r(2)
  have n: "t < length (steps (capture_loop env))" "steps (capture_loop env) ! t = r"
    by simp_all
  from records_ok [OF r(1)] have ok: "sorted (sr_held_keys r)" "distinct (sr_held_keys r)"
    "sr_action r = encode (set (sr_held_keys r)) KEYMAP"
    by (simp_all add: record_ok_def)
  have sl: "sorted_list_of_set H = sr_held_keys r"
    using ok(1,2) r(3) by (simp add: sorted_list_of_set.idem_if_sorted_distinct)
  show "t < length (steps (main env))" using n by (simp add: main_fields)
  show "sr_t (steps (main env) ! t) = t" using n r(2) by (simp add: main_fields)
  show "sr_held_keys (steps (main env) ! t) = sorted_list_of_set H"
    using n sl by (simp add: main_fields)
  show "sr_action (steps (main env) ! t) = encode H KEYMAP"
    using n ok(3) r(3) by (simp add: main_fields)
qed

theorem record_consistent_witness:
  "steps (main env_stop) ! 1 \<in> set (steps (main env_stop)) \<and>
   Snapshot 1 {''tab'', ''w''} \<in> set (trace (main env_stop)) \<and>
   sr_held_keys (steps (main env_stop) ! 1) = [''tab'', ''w''] \<and>
   sorted_list_of_set {''tab'', ''w''} = [''tab'', ''w''] \<and>
   sr_action (steps (main env_stop) ! 1) = [1, 0, 0, 0, 0, 0, 1, 0] \<and>
   (6::nat) < length KEYMAP \<and>
   set (sr_held_keys (steps (main env_stop) ! 1)) \<inter> snd (KEYMAP ! 6) \<noteq> {} \<and>
   (7::nat) < length KEYMAP \<and>
   set (sr_held_keys (steps (main env_stop) ! 1)) \<inter> snd (KEYMAP ! 7) = {}"
proof -
  have m: "steps (main env_stop) ! 1 \<in> set (steps (main env_stop))"
    by (simp add: main_env_stop)
  have sn: "Snapshot 1 {''tab'', ''w''} \<in> set (trace (main env_stop))"
    by (simp add: main_env_stop)
  have k: "(6::nat) < length KEYMAP \<and> (7::nat) < length KEYMAP"
    by (simp add: KEYMAP_def)
  have a: "sr_action (steps (main env_stop) ! 1) = [1, 0, 0, 0, 0, 0, 1, 0]"
    by (simp add: main_env_stop)
  from record_consistent [of env_stop] m k
  have b: "(sr_action (steps (main env_stop) ! 1) ! 6 = 1 \<longleftrightarrow>
        set (sr_held_keys (steps (main env_stop) ! 1)) \<inter> snd (KEYMAP ! 6) \<noteq> {}) \<and>
     (sr_action (steps (main env_stop) ! 1) ! 7 = 1 \<longleftrightarrow>
        set (sr_held_keys (steps (main env_stop) ! 1)) \<inter> snd (KEYMAP ! 7) \<noteq> {})"
    by blast
  from record_consistent [of env_stop] sn
  have c: "sr_held_keys (steps (main env_stop) ! 1) = sorted_list_of_set {''tab'', ''w''}"
    by blast
  have d: "sr_held_keys (steps (main env_stop) ! 1) = [''tab'', ''w'']"
    by (simp add: main_env_stop)
  from a b have e: "set (sr_held_keys (steps (main env_stop) ! 1)) \<inter> snd (KEYMAP ! 6) \<noteq> {} \<and>
     set (sr_held_keys (steps (main env_stop) ! 1)) \<inter> snd (KEYMAP ! 7) = {}"
    by simp
  from m sn k a c d e show ?thesis by simp
qed

end
